theory Spec2Isabelle
  imports Complex_Main "HOL-Library.Log_Nat"
begin

section \<open>Tickora: the habit ledger of \<^verbatim>\<open>script.js\<close>\<close>

text \<open>
  The development embeds the data layer of \<^verbatim>\<open>script.js\<close>: the date helpers, the
  stored ledger, the streak update, the activity operations and the success statistics.

  Conventions of the embedding.
  \<^item> A JavaScript \<^verbatim>\<open>Date\<close> is its time value: milliseconds since the epoch, an \<open>int\<close>.
    The host's time zone is a parameter \<open>tz\<close>: a standard offset, in minutes ahead of
    UTC, and one daylight-saving period in which local time is one hour further ahead.
    A zone without daylight saving has an empty period.
  \<^item> A date key, the text \<^verbatim>\<open>YYYY-MM-DD\<close> that \<^verbatim>\<open>toISOString().split('T')[0]\<close> yields, is
    represented by the number of the day it names (days since 1970-01-01); \<open>DateKey_text\<close>
    prints it. For years 0000 to 9999 the order of the texts is the order of the numbers.
  \<^item> A day record, a JavaScript object used as a dictionary, is the map of its own
    properties. Reading a property goes on to \<^verbatim>\<open>Object.prototype\<close> when the record has no
    own property of that name (\<open>object_get\<close>), and writing meets the setter of
    \<^verbatim>\<open>__proto__\<close> there (\<open>object_set\<close>).
  \<^item> Counters and time values are integers. The percentages are IEEE 754 doubles: a finite
    double is the rational it denotes, and each division, product and sum is rounded to
    the nearest double (\<open>double\<close>).
  \<^item> \<^verbatim>\<open>localStorage\<close> holds at most one ledger under the key \<^verbatim>\<open>tickoraData\<close>:
    \<open>None\<close> is the missing or unreadable entry.
\<close>

subsection \<open>Time values and the calendar (ECMAScript, Date objects)\<close>

type_synonym millis = int
type_synonym datekey = int

definition msPerDay :: int where
  "msPerDay = 1000 * 60 * 60 * 24"

definition msPerMinute :: int where
  "msPerMinute = 60000"

definition Day :: "millis \<Rightarrow> int" where
  "Day t = t div msPerDay"

definition TimeWithinDay :: "millis \<Rightarrow> int" where
  "TimeWithinDay t = t mod msPerDay"

definition DaysInYear :: "int \<Rightarrow> int" where
  "DaysInYear y =
     (if y mod 4 \<noteq> 0 then 365
      else if y mod 100 \<noteq> 0 then 366
      else if y mod 400 \<noteq> 0 then 365
      else 366)"

definition DayFromYear :: "int \<Rightarrow> int" where
  "DayFromYear y =
     365 * (y - 1970) + (y - 1969) div 4 - (y - 1901) div 100 + (y - 1601) div 400"

text \<open>
  The year of a day is the largest \<open>y\<close> with \<open>DayFromYear y \<le> n\<close>. It is computed from
  the mean year length (146097 days in 400 years), which is off by at most one.
\<close>

definition YearFromDay :: "int \<Rightarrow> int" where
  "YearFromDay n =
     (let y = 1970 + (400 * n) div 146097
      in if n < DayFromYear y then y - 1
         else if DayFromYear (y + 1) \<le> n then y + 1
         else y)"

definition InLeapYear :: "int \<Rightarrow> int" where
  "InLeapYear y = (if DaysInYear y = 366 then 1 else 0)"

definition DayWithinYear :: "int \<Rightarrow> int" where
  "DayWithinYear n = n - DayFromYear (YearFromDay n)"

text \<open>Months are numbered from 0 (January) to 11, as in JavaScript.\<close>

definition MonthFromDay :: "int \<Rightarrow> int" where
  "MonthFromDay n =
     (let d = DayWithinYear n; l = InLeapYear (YearFromDay n)
      in if d < 31 then 0
         else if d < 59 + l then 1
         else if d < 90 + l then 2
         else if d < 120 + l then 3
         else if d < 151 + l then 4
         else if d < 181 + l then 5
         else if d < 212 + l then 6
         else if d < 243 + l then 7
         else if d < 273 + l then 8
         else if d < 304 + l then 9
         else if d < 334 + l then 10
         else 11)"

definition daysBeforeMonth :: "int \<Rightarrow> int \<Rightarrow> int" where
  "daysBeforeMonth m l =
     (if m = 0 then 0
      else if m = 1 then 31
      else if m = 2 then 59 + l
      else if m = 3 then 90 + l
      else if m = 4 then 120 + l
      else if m = 5 then 151 + l
      else if m = 6 then 181 + l
      else if m = 7 then 212 + l
      else if m = 8 then 243 + l
      else if m = 9 then 273 + l
      else if m = 10 then 304 + l
      else 334 + l)"

definition DateFromDay :: "int \<Rightarrow> int" where
  "DateFromDay n =
     DayWithinYear n - daysBeforeMonth (MonthFromDay n) (InLeapYear (YearFromDay n)) + 1"

text \<open>\<open>MakeDay\<close> accepts any month and any day of the month and carries the overflow.\<close>

definition MakeDay :: "int \<Rightarrow> int \<Rightarrow> int \<Rightarrow> int" where
  "MakeDay year month date =
     (let ym = year + month div 12; mn = month mod 12
      in DayFromYear ym + daysBeforeMonth mn (InLeapYear ym) + date - 1)"

definition MakeDate :: "int \<Rightarrow> int \<Rightarrow> millis" where
  "MakeDate day time = day * msPerDay + time"

text \<open>
  The host's time zone. Local time is \<open>std_offset\<close> minutes ahead of UTC, and 60 minutes
  more from the instant \<open>dst_from\<close> up to the instant \<open>dst_until\<close> (both UTC).
\<close>

record zone =
  std_offset :: int
  dst_from :: millis
  dst_until :: millis

definition fixed_zone :: "int \<Rightarrow> zone" where
  "fixed_zone m = \<lparr>std_offset = m, dst_from = 0, dst_until = 0\<rparr>"

definition in_dst :: "zone \<Rightarrow> millis \<Rightarrow> bool" where
  "in_dst tz t = (dst_from tz \<le> t \<and> t < dst_until tz)"

definition LocalTime :: "zone \<Rightarrow> millis \<Rightarrow> millis" where
  "LocalTime tz t =
     t + (if in_dst tz t then std_offset tz + 60 else std_offset tz) * msPerMinute"

text \<open>
  From local time back to UTC. A local time that occurs twice (the hour after the period
  ends) or not at all (the hour skipped when it starts) is read with the offset that was
  in force before the transition.
\<close>

definition UTC :: "zone \<Rightarrow> millis \<Rightarrow> millis" where
  "UTC tz t =
     (if in_dst tz (t - (std_offset tz + 60) * msPerMinute)
      then t - (std_offset tz + 60) * msPerMinute
      else t - std_offset tz * msPerMinute)"

text \<open>The methods of \<^verbatim>\<open>Date\<close> that the script calls.\<close>

definition getFullYear :: "zone \<Rightarrow> millis \<Rightarrow> int" where
  "getFullYear tz t = YearFromDay (Day (LocalTime tz t))"

definition getMonth :: "zone \<Rightarrow> millis \<Rightarrow> int" where
  "getMonth tz t = MonthFromDay (Day (LocalTime tz t))"

definition getDate :: "zone \<Rightarrow> millis \<Rightarrow> int" where
  "getDate tz t = DateFromDay (Day (LocalTime tz t))"

definition setDate :: "zone \<Rightarrow> millis \<Rightarrow> int \<Rightarrow> millis" where
  "setDate tz t dt =
     (let lt = LocalTime tz t
      in UTC tz (MakeDate (MakeDay (YearFromDay (Day lt)) (MonthFromDay (Day lt)) dt)
                          (TimeWithinDay lt)))"

text \<open>\<^verbatim>\<open>new Date(year, month, day)\<close>: local midnight; years 0 to 99 mean 1900 to 1999.\<close>

definition Date_of_fields :: "zone \<Rightarrow> int \<Rightarrow> int \<Rightarrow> int \<Rightarrow> millis" where
  "Date_of_fields tz year month day =
     (let yr = (if 0 \<le> year \<and> year \<le> 99 then 1900 + year else year)
      in UTC tz (MakeDate (MakeDay yr month day) 0))"

text \<open>\<^verbatim>\<open>new Date(key)\<close> for a date key: midnight UTC of that day.\<close>

definition Date_of_key :: "datekey \<Rightarrow> millis" where
  "Date_of_key k = MakeDate k 0"

text \<open>\<^verbatim>\<open>d.toISOString().split('T')[0]\<close>: the UTC calendar day of the time value.\<close>

definition toISODate :: "millis \<Rightarrow> datekey" where
  "toISODate t = Day t"

text \<open>The text of a date key, \<^verbatim>\<open>YYYY-MM-DD\<close> (years 0 to 9999).\<close>

definition digit_char :: "int \<Rightarrow> char" where
  "digit_char d = ''0123456789'' ! nat d"

definition pad2 :: "int \<Rightarrow> string" where
  "pad2 n = [digit_char (n div 10 mod 10), digit_char (n mod 10)]"

definition pad4 :: "int \<Rightarrow> string" where
  "pad4 n = pad2 (n div 100) @ pad2 (n mod 100)"

definition DateKey_text :: "datekey \<Rightarrow> string" where
  "DateKey_text k =
     pad4 (YearFromDay k) @ ''-'' @ pad2 (MonthFromDay k + 1) @ ''-'' @ pad2 (DateFromDay k)"

text \<open>The key of a calendar date, the inverse reading (month from 1 to 12).\<close>

definition DateKey :: "int \<Rightarrow> int \<Rightarrow> int \<Rightarrow> datekey" where
  "DateKey y m d = MakeDay y (m - 1) d"

subsection \<open>Facts about the calendar\<close>

lemma DayFromYear_bounds:
  "146097 * (y - 1970) - 506 \<le> 400 * DayFromYear y"
  "400 * DayFromYear y \<le> 146097 * (y - 1970) + 589"
proof -
  define a where "a = (y - 1969) mod 4"
  define b where "b = (y - 1901) mod 100"
  define c where "c = (y - 1601) mod 400"
  have ra: "0 \<le> a" "a \<le> 3" and rb: "0 \<le> b" "b \<le> 99" and rc: "0 \<le> c" "c \<le> 399"
    by (simp_all add: a_def b_def c_def) (presburger+)?
  have qa: "4 * ((y - 1969) div 4) = y - 1969 - a"
    by (simp add: a_def minus_mod_eq_mult_div)
  have qb: "100 * ((y - 1901) div 100) = y - 1901 - b"
    by (simp add: b_def minus_mod_eq_mult_div)
  have qc: "400 * ((y - 1601) div 400) = y - 1601 - c"
    by (simp add: c_def minus_mod_eq_mult_div)
  have "400 * DayFromYear y =
        146000 * (y - 1970) + 100 * (4 * ((y - 1969) div 4)) - 4 * (100 * ((y - 1901) div 100))
          + 400 * ((y - 1601) div 400)"
    by (simp add: DayFromYear_def algebra_simps)
  also have "\<dots> = 146000 * (y - 1970) + 100 * (y - 1969 - a) - 4 * (y - 1901 - b)
          + (y - 1601 - c)"
    by (simp only: qa qb qc)
  finally have e: "400 * DayFromYear y = 146097 * (y - 1970) + 193 - 100 * a + 4 * b - c"
    by (simp add: algebra_simps)
  show "146097 * (y - 1970) - 506 \<le> 400 * DayFromYear y"
    using e ra rb rc by linarith
  show "400 * DayFromYear y \<le> 146097 * (y - 1970) + 589"
    using e ra rb rc by linarith
qed

text \<open>\<open>YearFromDay\<close> is the year of the day: the day lies within that year.\<close>

lemma YearFromDay_spec:
  "DayFromYear (YearFromDay n) \<le> n \<and> n < DayFromYear (YearFromDay n + 1)"
proof -
  define x where "x = (400 * n) div 146097"
  define r where "r = (400 * n) mod 146097"
  have r: "0 \<le> r" "r < 146097" by (simp_all add: r_def)
  have q: "400 * n = 146097 * x + r"
    by (simp add: x_def r_def)
  let ?y = "1970 + x"
  have "400 * DayFromYear (?y - 1) \<le> 146097 * x - 145508"
    using DayFromYear_bounds(2) [of "?y - 1"] by (simp add: algebra_simps)
  then have "400 * DayFromYear (?y - 1) \<le> 400 * n"
    using q r by arith
  then have lo: "DayFromYear (?y - 1) \<le> n" by simp
  have "146097 * x + 291688 \<le> 400 * DayFromYear (?y + 2)"
    using DayFromYear_bounds(1) [of "?y + 2"] by (simp add: algebra_simps)
  then have "400 * n < 400 * DayFromYear (?y + 2)"
    using q r by arith
  then have hi: "n < DayFromYear (?y + 2)" by simp
  have "YearFromDay n =
      (if n < DayFromYear ?y then ?y - 1 else if DayFromYear (?y + 1) \<le> n then ?y + 1 else ?y)"
    by (simp add: YearFromDay_def x_def Let_def)
  with lo hi show ?thesis
    by (auto simp: algebra_simps)
qed

lemma MonthFromDay_range: "0 \<le> MonthFromDay n \<and> MonthFromDay n \<le> 11"
  by (simp add: MonthFromDay_def Let_def)

lemma MakeDay_of_fields:
  "MakeDay (YearFromDay n) (MonthFromDay n) (DateFromDay n + k) = n + k"
proof -
  have r: "0 \<le> MonthFromDay n" "MonthFromDay n \<le> 11"
    using MonthFromDay_range [of n] by simp_all
  then have "MonthFromDay n div 12 = 0" and "MonthFromDay n mod 12 = MonthFromDay n"
    by simp_all
  then show ?thesis
    by (simp add: MakeDay_def DateFromDay_def DayWithinYear_def Let_def)
qed

lemma msPerDay_pos: "0 < msPerDay"
  by (simp add: msPerDay_def)

text \<open>\<open>no_dst tz\<close>: the zone has no daylight-saving period.\<close>

definition no_dst :: "zone \<Rightarrow> bool" where
  "no_dst tz = (dst_until tz \<le> dst_from tz)"

lemma no_dst_fixed_zone: "no_dst (fixed_zone m)"
  by (simp add: no_dst_def fixed_zone_def)

lemma no_dst_local: "no_dst tz \<Longrightarrow> LocalTime tz t = t + std_offset tz * msPerMinute"
  by (simp add: no_dst_def LocalTime_def in_dst_def)

lemma no_dst_utc: "no_dst tz \<Longrightarrow> UTC tz t = t - std_offset tz * msPerMinute"
  by (simp add: no_dst_def UTC_def in_dst_def)

text \<open>
  \<^verbatim>\<open>d.setDate(d.getDate() + k)\<close> moves the local time by \<open>k\<close> days and keeps the local time
  of day.
\<close>

lemma setDate_local:
  "setDate tz t (getDate tz t + k) = UTC tz (LocalTime tz t + k * msPerDay)"
proof -
  define lt where "lt = LocalTime tz t"
  have "MakeDate (MakeDay (YearFromDay (Day lt)) (MonthFromDay (Day lt)) (DateFromDay (Day lt) + k))
          (TimeWithinDay lt) = (Day lt + k) * msPerDay + TimeWithinDay lt"
    by (simp add: MakeDate_def MakeDay_of_fields)
  also have "\<dots> = lt + k * msPerDay"
    by (simp add: Day_def TimeWithinDay_def algebra_simps)
  finally show ?thesis
    by (simp add: setDate_def getDate_def Let_def lt_def [symmetric])
qed

text \<open>
  Without daylight saving the time value moves by exactly \<open>k\<close> days. With it, a step back
  by one day still goes back in time, by 23, 24 or 25 hours.
\<close>

lemma setDate_getDate:
  "no_dst tz \<Longrightarrow> setDate tz t (getDate tz t + k) = t + k * msPerDay"
  by (simp add: setDate_local no_dst_local no_dst_utc)

lemma setDate_before: "setDate tz t (getDate tz t - 1) < t"
  using setDate_local [of tz t "- 1"]
  by (simp add: UTC_def LocalTime_def msPerDay_def msPerMinute_def)

lemma toISODate_shift: "toISODate (t + k * msPerDay) = toISODate t + k"
  using msPerDay_pos by (simp add: toISODate_def Day_def)

lemma toISODate_setDate:
  "no_dst tz \<Longrightarrow> toISODate (setDate tz t (getDate tz t - 1)) = toISODate t - 1"
  using setDate_getDate [of tz t "- 1"] toISODate_shift [of t "- 1"] by simp

lemma toISODate_of_key: "toISODate (Date_of_key k) = k"
  using msPerDay_pos by (simp add: toISODate_def Day_def Date_of_key_def MakeDate_def)

subsection \<open>Property access and numbers (ECMAScript)\<close>

text \<open>
  What reading a property of a day record yields: \<^verbatim>\<open>undefined\<close>, a stored boolean, or a
  member of \<^verbatim>\<open>Object.prototype\<close>. Such a member is a function (for \<^verbatim>\<open>__proto__\<close> the getter
  returns the prototype object): it is not \<^verbatim>\<open>undefined\<close>, not \<^verbatim>\<open>true\<close>, and converts to true.
\<close>

datatype jsval = Undefined | Boolean bool | Inherited

text \<open>The property names of \<^verbatim>\<open>Object.prototype\<close>.\<close>

definition Object_prototype :: "string list" where
  "Object_prototype =
     [''constructor'', ''hasOwnProperty'', ''isPrototypeOf'', ''propertyIsEnumerable'',
      ''toLocaleString'', ''toString'', ''valueOf'', ''__proto__'',
      ''__defineGetter__'', ''__defineSetter__'', ''__lookupGetter__'', ''__lookupSetter__'']"

text \<open>
  \<^verbatim>\<open>obj[key]\<close> for a day record \<open>obj\<close>, whether written as a literal \<^verbatim>\<open>{}\<close> or built by
  \<^verbatim>\<open>JSON.parse\<close>: the own property when there is one, else the property of the prototype.
\<close>

definition object_get :: "(string \<rightharpoonup> bool) \<Rightarrow> string \<Rightarrow> jsval" where
  "object_get obj key =
     (case obj key of
        Some b \<Rightarrow> Boolean b
      | None \<Rightarrow> if key \<in> set Object_prototype then Inherited else Undefined)"

text \<open>
  \<^verbatim>\<open>obj[key] = b\<close> for a boolean \<open>b\<close>. The assignment creates or updates an own property. The
  one exception is \<^verbatim>\<open>__proto__\<close> when the record has no own property of that name (only
  \<^verbatim>\<open>JSON.parse\<close> creates one): the assignment then calls the setter of \<^verbatim>\<open>Object.prototype\<close>,
  which ignores a value that is neither an object nor \<^verbatim>\<open>null\<close>.
\<close>

definition object_set :: "(string \<rightharpoonup> bool) \<Rightarrow> string \<Rightarrow> bool \<Rightarrow> (string \<rightharpoonup> bool)" where
  "object_set obj key b =
     (if key = ''__proto__'' \<and> obj key = None then obj else obj(key \<mapsto> b))"

definition ToBoolean :: "jsval \<Rightarrow> bool" where
  "ToBoolean v = (case v of Undefined \<Rightarrow> False | Boolean b \<Rightarrow> b | Inherited \<Rightarrow> True)"

text \<open>
  Rounding to binary64, ties to the even significand. \<open>exponent x\<close> is the \<open>e\<close> with
  \<open>2 ^ e \<le> \<bar>x\<bar> < 2 ^ (e + 1)\<close>; the spacing of the doubles around \<open>x\<close> is \<open>2 ^ (e - 52)\<close>, and
  \<open>2 ^ (- 1074)\<close> below the normal range. Numbers of magnitude \<open>2 ^ 1024\<close> and more, which
  round to an infinity, do not arise here: the numbers rounded are quotients of array
  lengths, percentages and sums of as many percentages as an array has elements.
\<close>

definition pow2 :: "int \<Rightarrow> rat" where
  "pow2 e = (if 0 \<le> e then 2 ^ nat e else 1 / 2 ^ nat (- e))"

definition exponent :: "rat \<Rightarrow> int" where
  "exponent x =
     (let (p, q) = quotient_of \<bar>x\<bar>;
          e = bitlen p - bitlen q
      in if pow2 e \<le> \<bar>x\<bar> then e else e - 1)"

definition round_half_even :: "rat \<Rightarrow> int" where
  "round_half_even q =
     (let n = \<lfloor>q\<rfloor>;
          r = q - of_int n
      in if r < 1 / 2 then n
         else if 1 / 2 < r then n + 1
         else if even n then n else n + 1)"

definition double :: "rat \<Rightarrow> rat" where
  "double x =
     (if x = 0 then 0
      else (let e = max (exponent x) (- 1022);
                ulp = pow2 (e - 52)
            in of_int (round_half_even (x / ulp)) * ulp))"

subsection \<open>The ledger and its storage\<close>

datatype theme = Light | Dark

text \<open>
  The object \<^verbatim>\<open>initializeData\<close> builds. \<open>dailyData\<close> maps a date key to that day's
  record, which maps an activity name to its completion flag.
\<close>

record ledger =
  activities :: "string list"
  dailyData :: "datekey \<rightharpoonup> (string \<rightharpoonup> bool)"
  lastResetDate :: datekey
  theme :: theme
  appOpens :: "datekey list"
  currentStreak :: nat
  bestStreak :: nat
  lastOpenDate :: datekey

type_synonym storage = "ledger option"

definition getTodayDate :: "millis \<Rightarrow> datekey" where
  "getTodayDate now = toISODate now"

definition initializeData :: "millis \<Rightarrow> ledger \<times> storage" where
  "initializeData now =
     (let today = getTodayDate now;
          data = \<lparr>activities = [], dailyData = Map.empty, lastResetDate = today,
                  theme = Light, appOpens = [], currentStreak = 0, bestStreak = 0,
                  lastOpenDate = today\<rparr>
      in (data, Some data))"

definition getData :: "millis \<Rightarrow> storage \<Rightarrow> ledger \<times> storage" where
  "getData now st = (case st of None \<Rightarrow> initializeData now | Some parsed \<Rightarrow> (parsed, st))"

text \<open>
  \<^verbatim>\<open>saveData\<close> writes the ledger unless its JSON text is longer than 5000000 characters or
  the store rejects it; \<open>fits\<close> says whether the write goes through.
\<close>

definition saveData :: "(ledger \<Rightarrow> bool) \<Rightarrow> ledger \<Rightarrow> storage \<Rightarrow> storage" where
  "saveData fits data st = (if fits data then Some data else st)"

text \<open>A store that accepts every write, for concrete instances.\<close>

definition unlimited :: "ledger \<Rightarrow> bool" where
  "unlimited data = True"

definition checkDailyReset :: "(ledger \<Rightarrow> bool) \<Rightarrow> millis \<Rightarrow> storage \<Rightarrow> storage" where
  "checkDailyReset fits now st =
     (let (data, st1) = getData now st;
          today = getTodayDate now
      in if lastResetDate data \<noteq> today
         then saveData fits (data\<lparr>lastResetDate := today\<rparr>) st1
         else st1)"

subsection \<open>The streak update\<close>

text \<open>
  The two \<^verbatim>\<open>while (true)\<close> loops of \<^verbatim>\<open>updateStreak\<close> are the same loop: while the day of
  \<open>checkDate\<close> is among the dates, count it and step one day back.
\<close>

function streak_loop :: "zone \<Rightarrow> datekey list \<Rightarrow> nat \<Rightarrow> millis \<Rightarrow> nat" where
  "streak_loop tz sortedDates current checkDate =
     (let dateStr = toISODate checkDate
      in if dateStr \<in> set sortedDates
         then streak_loop tz sortedDates (current + 1)
                (setDate tz checkDate (getDate tz checkDate - 1))
         else current)"
  by pat_completeness auto
termination
proof (relation "measure (\<lambda>(tz, sortedDates, current, checkDate).
                   nat (checkDate - Min (set sortedDates) * msPerDay + 1))")
  show "wf (measure (\<lambda>(tz, sortedDates, current, checkDate).
              nat (checkDate - Min (set sortedDates) * msPerDay + 1)))"
    by simp
next
  fix tz :: zone and sortedDates :: "datekey list" and current :: nat
    and checkDate :: millis and dateStr :: datekey
  assume d: "dateStr = toISODate checkDate" and m: "dateStr \<in> set sortedDates"
  from m have "Min (set sortedDates) \<le> checkDate div msPerDay"
    using d by (simp add: toISODate_def Day_def)
  then have "Min (set sortedDates) * msPerDay \<le> checkDate div msPerDay * msPerDay"
    using msPerDay_pos by simp
  also have "\<dots> = checkDate - checkDate mod msPerDay"
    by (simp add: minus_mod_eq_div_mult)
  also have "\<dots> \<le> checkDate"
    using msPerDay_pos by simp
  finally have "0 < checkDate - Min (set sortedDates) * msPerDay + 1" by simp
  with setDate_before [of tz checkDate]
  show "((tz, sortedDates, current + 1, setDate tz checkDate (getDate tz checkDate - 1)),
              (tz, sortedDates, current, checkDate))
             \<in> measure (\<lambda>(tz, sortedDates, current, checkDate).
                   nat (checkDate - Min (set sortedDates) * msPerDay + 1))"
    by simp
qed

declare streak_loop.simps [simp del]

text \<open>
  The \<^verbatim>\<open>for\<close> loop over \<open>sortedDatesObj\<close>, with its index \<open>i\<close> and the counters
  \<^verbatim>\<open>bestStreak\<close> and \<^verbatim>\<open>tempStreak\<close>.
\<close>

function best_loop :: "millis list \<Rightarrow> nat \<Rightarrow> nat \<Rightarrow> nat \<Rightarrow> nat \<times> nat" where
  "best_loop sortedDatesObj i best temp =
     (if i < length sortedDatesObj
      then (if i = 0 then best_loop sortedDatesObj (i + 1) best 1
            else (let prevDate = sortedDatesObj ! (i - 1);
                      currDate = sortedDatesObj ! i;
                      diffDays = (currDate - prevDate) div (1000 * 60 * 60 * 24)
                  in if diffDays = 1
                     then best_loop sortedDatesObj (i + 1) best (temp + 1)
                     else best_loop sortedDatesObj (i + 1) (max best temp) 1))
      else (best, temp))"
  by pat_completeness auto
termination
  by (relation "measure (\<lambda>(sortedDatesObj, i, best, temp). length sortedDatesObj - i)")
    auto

declare best_loop.simps [simp del]

text \<open>
  \<^verbatim>\<open>data.appOpens.sort()\<close> sorts the array in place, so the ledger keeps the sorted list.
\<close>

definition updateStreak :: "zone \<Rightarrow> millis \<Rightarrow> ledger \<Rightarrow> ledger" where
  "updateStreak tz now data =
     (if appOpens data = [] then data\<lparr>currentStreak := 0, bestStreak := 0\<rparr>
      else
        (let sortedDates = sort (appOpens data);
             data1 = data\<lparr>appOpens := sortedDates\<rparr>;
             today = getTodayDate now;
             todayDate = Date_of_key today;
             checkDate = todayDate;
             current =
               (if today \<in> set sortedDates
                then streak_loop tz sortedDates 1 (setDate tz checkDate (getDate tz checkDate - 1))
                else
                  (let checkDate1 = setDate tz checkDate (getDate tz checkDate - 1);
                       yesterdayStr = toISODate checkDate1
                   in if yesterdayStr \<in> set sortedDates
                      then streak_loop tz sortedDates 1
                             (setDate tz checkDate1 (getDate tz checkDate1 - 1))
                      else 0));
             sortedDatesObj = sort (map Date_of_key sortedDates);
             (best, temp) = best_loop sortedDatesObj 0 0 0;
             best1 = max (max best temp) current
         in data1\<lparr>currentStreak := current, bestStreak := best1\<rparr>))"

definition trackAppOpen :: "(ledger \<Rightarrow> bool) \<Rightarrow> zone \<Rightarrow> millis \<Rightarrow> storage \<Rightarrow> storage" where
  "trackAppOpen fits tz now st =
     (let (data, st1) = getData now st;
          today = getTodayDate now
      in if today \<notin> set (appOpens data)
         then (let data1 = data\<lparr>appOpens := appOpens data @ [today]\<rparr>;
                   data2 = updateStreak tz now data1;
                   data3 = data2\<lparr>lastOpenDate := today\<rparr>
               in saveData fits data3 st1)
         else st1)"

subsection \<open>Input checks\<close>

text \<open>
  \<^verbatim>\<open>sanitizeInput\<close> stores the input as the \<^verbatim>\<open>textContent\<close> of a fresh element and reads
  \<^verbatim>\<open>textContent\<close> back. The element then holds one text node with exactly that text, so
  the string comes back unchanged (markup is neither parsed nor escaped); the empty input
  falls through both alternatives to the empty string.
\<close>

definition sanitizeInput :: "string \<Rightarrow> string" where
  "sanitizeInput input = (if input \<noteq> [] then input else [])"

text \<open>
  \<^verbatim>\<open>String.prototype.trim\<close> removes white space and line terminators at both ends; among the
  code units below 256 these are TAB, LF, VT, FF, CR, SPACE and NBSP.
\<close>

definition is_white_space :: "char \<Rightarrow> bool" where
  "is_white_space c = ((of_char c :: nat) \<in> {9, 10, 11, 12, 13, 32, 160})"

definition trim :: "string \<Rightarrow> string" where
  "trim s = rev (dropWhile is_white_space (rev (dropWhile is_white_space s)))"

text \<open>\<^verbatim>\<open>validateActivityName\<close> returns \<^verbatim>\<open>false\<close> (here \<open>None\<close>) or the sanitized name.\<close>

definition validateActivityName :: "string \<Rightarrow> string option" where
  "validateActivityName name =
     (if name = [] then None
      else (let sanitized = trim (sanitizeInput name)
            in if length sanitized = 0 \<or> length sanitized > 100 then None
               else Some sanitized))"

subsection \<open>Activities\<close>

text \<open>
  The three alerts of \<^verbatim>\<open>addActivity\<close>: "Please enter a valid activity name (1-100
  characters).", "This activity already exists!" and "Maximum 50 activities allowed.".
\<close>

datatype error = InvalidName | DuplicateName | LimitExceeded

text \<open>
  Each operation returns what it did in memory together with the storage it leaves. The
  rendering calls that follow a save only read the ledger back and are left out.
  \<^verbatim>\<open>addActivity\<close>: \<open>Inl\<close> is the alert shown before returning, \<open>Inr\<close> the ledger handed to
  \<^verbatim>\<open>saveData\<close>.
\<close>

definition addActivity ::
  "(ledger \<Rightarrow> bool) \<Rightarrow> millis \<Rightarrow> string \<Rightarrow> storage \<Rightarrow> (error + ledger) \<times> storage" where
  "addActivity fits now name st =
     (case validateActivityName name of
        None \<Rightarrow> (Inl InvalidName, st)
      | Some validatedName \<Rightarrow>
          (let (data, st1) = getData now st
           in if validatedName \<in> set (activities data) then (Inl DuplicateName, st1)
              else if length (activities data) \<ge> 50 then (Inl LimitExceeded, st1)
              else (let data1 = data\<lparr>activities := activities data @ [validatedName]\<rparr>
                    in (Inr data1, saveData fits data1 st1))))"

text \<open>
  \<^verbatim>\<open>deleteActivity\<close>: \<open>confirmed\<close> is the answer to the \<^verbatim>\<open>confirm\<close> dialog; \<open>None\<close> is the
  return after a declined dialog, before anything is read. \<^verbatim>\<open>delete obj[key]\<close> removes an own
  property and leaves the prototype alone.
\<close>

definition deleteActivity ::
  "bool \<Rightarrow> (ledger \<Rightarrow> bool) \<Rightarrow> millis \<Rightarrow> string \<Rightarrow> storage \<Rightarrow> ledger option \<times> storage" where
  "deleteActivity confirmed fits now name st =
     (if \<not> confirmed then (None, st)
      else
        (let (data, st1) = getData now st;
             data1 = data\<lparr>activities := filter (\<lambda>a. a \<noteq> name) (activities data)\<rparr>;
             data2 = data1\<lparr>dailyData :=
                       (\<lambda>date. case dailyData data1 date of
                                  None \<Rightarrow> None
                                | Some dayRecord \<Rightarrow>
                                    (if object_get dayRecord name \<noteq> Undefined
                                     then Some (dayRecord(name := None))
                                     else Some dayRecord))\<rparr>
         in (Some data2, saveData fits data2 st1)))"

text \<open>
  \<^verbatim>\<open>toggleActivity\<close>: \<open>currentStatus\<close> is \<^verbatim>\<open>data.dailyData[today][activityName] || false\<close>, and
  the value assigned is \<^verbatim>\<open>!currentStatus\<close>.
\<close>

definition toggleActivity ::
  "(ledger \<Rightarrow> bool) \<Rightarrow> millis \<Rightarrow> string \<Rightarrow> storage \<Rightarrow> ledger \<times> storage" where
  "toggleActivity fits now activityName st =
     (let (data, st1) = getData now st;
          today = getTodayDate now;
          data1 = (if dailyData data today = None
                   then data\<lparr>dailyData := (dailyData data)(today \<mapsto> Map.empty)\<rparr>
                   else data);
          dayRecord = (case dailyData data1 today of None \<Rightarrow> Map.empty | Some r \<Rightarrow> r);
          currentStatus = (let v = object_get dayRecord activityName
                           in if ToBoolean v then v else Boolean False);
          data2 = data1\<lparr>dailyData :=
                    (dailyData data1)(today \<mapsto>
                       object_set dayRecord activityName (\<not> ToBoolean currentStatus))\<rparr>
      in (data2, saveData fits data2 st1))"

definition toggleTheme :: "(ledger \<Rightarrow> bool) \<Rightarrow> millis \<Rightarrow> storage \<Rightarrow> ledger \<times> storage" where
  "toggleTheme fits now st =
     (let (data, st1) = getData now st;
          currentTheme = theme data;
          newTheme = (if currentTheme = Light then Dark else Light);
          data1 = data\<lparr>theme := newTheme\<rparr>
      in (data1, saveData fits data1 st1))"

subsection \<open>Date ranges and the success statistics\<close>

definition getWeekDates :: "zone \<Rightarrow> millis \<Rightarrow> datekey list" where
  "getWeekDates tz now =
     map (\<lambda>i. toISODate (setDate tz now (getDate tz now - i))) (rev [0..6])"

definition getMonthDates :: "zone \<Rightarrow> millis \<Rightarrow> datekey list" where
  "getMonthDates tz now =
     (let year = getFullYear tz now;
          month = getMonth tz now;
          daysInMonth = getDate tz (Date_of_fields tz year (month + 1) 0)
      in map (\<lambda>day. toISODate (Date_of_fields tz year month day)) [1..daysInMonth])"

text \<open>\<^verbatim>\<open>Math.round\<close> of a double: the nearest integer, a half rounded up. It is exact.\<close>

definition Math_round :: "rat \<Rightarrow> int" where
  "Math_round x = \<lfloor>x + 1 / 2\<rfloor>"

record stats =
  completedDays :: nat
  overall :: int

text \<open>
  The callback of the inner \<^verbatim>\<open>forEach\<close>, over the activities, and the loop with its
  counters \<open>(dayCompleted, hasData)\<close>.
\<close>

definition activity_step :: "(string \<rightharpoonup> bool) \<Rightarrow> string \<Rightarrow> nat \<times> bool \<Rightarrow> nat \<times> bool" where
  "activity_step dayData activity =
     (\<lambda>(dayCompleted, hasData).
        (if object_get dayData activity = Boolean True then dayCompleted + 1 else dayCompleted,
         if object_get dayData activity \<noteq> Undefined then True else hasData))"

definition day_scan :: "(string \<rightharpoonup> bool) \<Rightarrow> string list \<Rightarrow> nat \<times> bool" where
  "day_scan dayData acts = fold (activity_step dayData) acts (0, False)"

text \<open>
  The callback of the outer \<^verbatim>\<open>forEach\<close>, over the dates, and the loop with its counters
  \<open>(daysWithData, completedDays, totalDayPercentage)\<close>. The quotient, the product and the
  sum are each rounded to a double.
\<close>

definition date_step :: "ledger \<Rightarrow> datekey \<Rightarrow> nat \<times> nat \<times> rat \<Rightarrow> nat \<times> nat \<times> rat" where
  "date_step data date =
     (\<lambda>(daysWithData, completed, totalDayPercentage).
        (let dayData = (case dailyData data date of None \<Rightarrow> Map.empty | Some r \<Rightarrow> r);
             (dayCompleted, hasData) = day_scan dayData (activities data)
         in if hasData
            then (let dayPercentage =
                        double (double (of_nat dayCompleted / of_nat (length (activities data))) * 100)
                  in (daysWithData + 1,
                      (if dayPercentage = 100 then completed + 1 else completed),
                      double (totalDayPercentage + dayPercentage)))
            else (daysWithData, completed, totalDayPercentage)))"

definition range_scan ::
  "ledger \<Rightarrow> datekey list \<Rightarrow> nat \<times> nat \<times> rat \<Rightarrow> nat \<times> nat \<times> rat" where
  "range_scan data dateRange = fold (date_step data) dateRange"

definition calculateSuccessPercentage :: "millis \<Rightarrow> datekey list \<Rightarrow> storage \<Rightarrow> stats \<times> storage" where
  "calculateSuccessPercentage now dateRange st =
     (let (data, st1) = getData now st
      in if length (activities data) = 0 \<or> length dateRange = 0
         then (\<lparr>completedDays = 0, overall = 0\<rparr>, st1)
         else (let (daysWithData, completed, totalDayPercentage) =
                     range_scan data dateRange (0, 0, 0);
                   overallPct = (if daysWithData > 0
                                 then Math_round (double (totalDayPercentage / of_nat daysWithData))
                                 else 0)
               in (\<lparr>completedDays = completed, overall = overallPct\<rparr>, st1)))"

definition calculateWeeklyStats :: "zone \<Rightarrow> millis \<Rightarrow> storage \<Rightarrow> stats \<times> storage" where
  "calculateWeeklyStats tz now st = calculateSuccessPercentage now (getWeekDates tz now) st"

definition calculateMonthlyStats :: "zone \<Rightarrow> millis \<Rightarrow> storage \<Rightarrow> stats \<times> storage" where
  "calculateMonthlyStats tz now st = calculateSuccessPercentage now (getMonthDates tz now) st"

text \<open>A fresh ledger whose app-open log is the given list, for concrete instances.\<close>

definition ledger_with_opens :: "datekey list \<Rightarrow> ledger" where
  "ledger_with_opens ds = (fst (initializeData 0))\<lparr>appOpens := ds\<rparr>"

subsection \<open>The current streak\<close>

text \<open>
  \<open>run_ending_at A d n\<close>: the maximal run of consecutive calendar days of \<open>A\<close> that ends
  at day \<open>d\<close> has length \<open>n\<close>; the days \<open>d\<close>, \<open>d - 1\<close>, ..., \<open>d - (n - 1)\<close> are in \<open>A\<close>
  and the day \<open>d - n\<close> is not.
\<close>

definition run_ending_at :: "datekey set \<Rightarrow> datekey \<Rightarrow> nat \<Rightarrow> bool" where
  "run_ending_at A d n = ((\<forall>k<n. d - int k \<in> A) \<and> d - int n \<notin> A)"

text \<open>
  \<open>steady tz a b\<close>: the offset of the zone does not change from the instant \<open>a\<close> to the
  instant \<open>b\<close>. \<open>walk_steady tz xs today\<close>: it does not change from 25 hours before the
  earliest of the days \<open>xs\<close> and \<open>today\<close> up to the start of \<open>today\<close>, the span the backward
  walk of the streak update can touch.
\<close>

definition steady :: "zone \<Rightarrow> millis \<Rightarrow> millis \<Rightarrow> bool" where
  "steady tz a b =
     (no_dst tz \<or> dst_until tz \<le> a \<or> b < dst_from tz \<or> (dst_from tz \<le> a \<and> b < dst_until tz))"

definition walk_steady :: "zone \<Rightarrow> datekey list \<Rightarrow> datekey \<Rightarrow> bool" where
  "walk_steady tz xs today =
     steady tz (Date_of_key (Min (insert today (set xs))) - msPerDay - 60 * msPerMinute)
       (Date_of_key today)"

lemma no_dst_steady: "no_dst tz \<Longrightarrow> steady tz a b"
  by (simp add: steady_def)

lemma no_dst_walk_steady: "no_dst tz \<Longrightarrow> walk_steady tz xs today"
  by (simp add: walk_steady_def no_dst_steady)

lemma steady_in_dst:
  assumes "steady tz a b" and "a \<le> u" and "u \<le> b" and "a \<le> v" and "v \<le> b"
  shows "in_dst tz u = in_dst tz v"
  using assms by (auto simp: steady_def in_dst_def no_dst_def)

text \<open>Where the offset is steady, a step back by one day is a step of exactly 24 hours.\<close>

lemma setDate_steady:
  assumes s: "steady tz a b" and lo: "a + msPerDay + 60 * msPerMinute \<le> t" and hi: "t \<le> b"
  shows "setDate tz t (getDate tz t - 1) = t - msPerDay"
proof -
  have d: "0 < msPerDay" "0 < msPerMinute"
    by (simp_all add: msPerDay_def msPerMinute_def)
  have e: "setDate tz t (getDate tz t - 1) = UTC tz (LocalTime tz t - msPerDay)"
    using setDate_local [of tz t "- 1"] by simp
  show ?thesis
  proof (cases "in_dst tz t")
    case True
    have "in_dst tz (t - msPerDay) = in_dst tz t"
      using s by (rule steady_in_dst) (use lo hi d in simp_all)
    with True show ?thesis
      by (simp add: e LocalTime_def UTC_def algebra_simps)
  next
    case False
    have "in_dst tz (t - msPerDay - 60 * msPerMinute) = in_dst tz t"
      using s by (rule steady_in_dst) (use lo hi d in simp_all)
    with False show ?thesis
      by (simp add: e LocalTime_def UTC_def algebra_simps)
  qed
qed

lemma run_ending_at_unique: "run_ending_at A d n \<Longrightarrow> run_ending_at A d m \<Longrightarrow> n = m"
  unfolding run_ending_at_def by (metis linorder_neqE_nat)

lemma run_ending_at_step:
  "d \<in> A \<Longrightarrow> run_ending_at A (d - 1) n \<Longrightarrow> run_ending_at A d (Suc n)"
  unfolding run_ending_at_def
proof (intro conjI allI impI)
  fix k assume a: "d \<in> A" "(\<forall>k<n. d - 1 - int k \<in> A) \<and> d - 1 - int n \<notin> A" "k < Suc n"
  show "d - int k \<in> A"
  proof (cases k)
    case 0 with a show ?thesis by simp
  next
    case (Suc j)
    with a have "d - 1 - int j \<in> A" by simp
    then show ?thesis using Suc by (simp add: algebra_simps)
  qed
next
  assume "(\<forall>k<n. d - 1 - int k \<in> A) \<and> d - 1 - int n \<notin> A"
  then show "d - int (Suc n) \<notin> A" by (simp add: algebra_simps)
qed

lemma toISODate_back: "toISODate (t - msPerDay) = toISODate t - 1"
  using toISODate_shift [of t "- 1"] by simp

lemma toISODate_minus: "toISODate (t - k * msPerDay) = toISODate t - k"
  using toISODate_shift [of t "- k"] by simp

lemma toISODate_lower: "Date_of_key (toISODate t) \<le> t"
proof -
  have "Date_of_key (toISODate t) = t - t mod msPerDay"
    by (simp add: Date_of_key_def MakeDate_def toISODate_def Day_def minus_mod_eq_div_mult)
  then show ?thesis using msPerDay_pos by simp
qed

text \<open>
  Where the offset is steady over the days it visits, the loop adds to its counter the
  length of the run that ends at the day it starts from.
\<close>

lemma streak_loop_run:
  "steady tz a b \<Longrightarrow>
   \<forall>x \<in> set xs. a + msPerDay + 60 * msPerMinute \<le> Date_of_key x \<Longrightarrow> t \<le> b \<Longrightarrow>
   \<exists>n. streak_loop tz xs c t = c + n \<and> run_ending_at (set xs) (toISODate t) n"
proof (induction tz xs c t rule: streak_loop.induct)
  case (1 tz xs c t)
  show ?case
  proof (cases "toISODate t \<in> set xs")
    case False
    then have "streak_loop tz xs c t = c + 0 \<and> run_ending_at (set xs) (toISODate t) 0"
      by (subst streak_loop.simps) (simp add: run_ending_at_def)
    then show ?thesis by blast
  next
    case True
    with "1.prems"(2) have "a + msPerDay + 60 * msPerMinute \<le> Date_of_key (toISODate t)"
      by blast
    also have "\<dots> \<le> t" by (rule toISODate_lower)
    finally have lo: "a + msPerDay + 60 * msPerMinute \<le> t" .
    have step: "setDate tz t (getDate tz t - 1) = t - msPerDay"
      using "1.prems"(1) lo "1.prems"(3) by (rule setDate_steady)
    have "t - msPerDay \<le> b"
      using "1.prems"(3) msPerDay_pos by simp
    with "1.IH" [OF refl True] "1.prems"(1,2) obtain n where
      n: "streak_loop tz xs (c + 1) (t - msPerDay) = c + 1 + n"
         "run_ending_at (set xs) (toISODate t - 1) n"
      by (auto simp: step toISODate_back)
    from True n have "streak_loop tz xs c t = c + Suc n"
      by (subst streak_loop.simps) (simp add: step)
    moreover have "run_ending_at (set xs) (toISODate t) (Suc n)"
      using True n(2) by (rule run_ending_at_step)
    ultimately show ?thesis by blast
  qed
qed

lemma streak_loop_from_1:
  assumes s: "steady tz a b"
    and lo: "\<forall>x \<in> set xs. a + msPerDay + 60 * msPerMinute \<le> Date_of_key x"
    and hi: "t \<le> b"
    and t: "toISODate t = d - 1" and d: "d \<in> set xs"
  shows "run_ending_at (set xs) d (streak_loop tz xs 1 t)"
proof -
  from streak_loop_run [OF s lo hi, of 1] obtain n where
    n: "streak_loop tz xs 1 t = 1 + n" "run_ending_at (set xs) (toISODate t) n"
    by blast
  from t d n(2) have "run_ending_at (set xs) d (Suc n)"
    by (simp add: run_ending_at_step)
  with n(1) show ?thesis by simp
qed

text \<open>The current streak that \<open>updateStreak\<close> stores, in terms of the loop.\<close>

lemma sort_idem: "sort (sort xs) = sort (xs :: int list)"
  by (rule sorted_sort_id) simp

lemma sort_eq_Nil: "sort xs = [] \<longleftrightarrow> xs = ([] :: int list)"
  by (auto dest: arg_cong [where f = length])

lemma currentStreak_updateStreak:
  "currentStreak (updateStreak tz now data) =
     (if sort (appOpens data) = [] then 0
      else if getTodayDate now \<in> set (sort (appOpens data))
      then streak_loop tz (sort (appOpens data)) 1
             (setDate tz (Date_of_key (getTodayDate now))
                (getDate tz (Date_of_key (getTodayDate now)) - 1))
      else if toISODate (setDate tz (Date_of_key (getTodayDate now))
                (getDate tz (Date_of_key (getTodayDate now)) - 1)) \<in> set (sort (appOpens data))
      then streak_loop tz (sort (appOpens data)) 1
             (setDate tz (setDate tz (Date_of_key (getTodayDate now))
                            (getDate tz (Date_of_key (getTodayDate now)) - 1))
                (getDate tz (setDate tz (Date_of_key (getTodayDate now))
                               (getDate tz (Date_of_key (getTodayDate now)) - 1)) - 1))
      else 0)"
  by (simp add: updateStreak_def Let_def sort_eq_Nil split: prod.splits)

text \<open>
  The first steps of the walk, from the start of today, under \<open>walk_steady\<close>.
\<close>

lemma walk_steady_bounds:
  assumes w: "walk_steady tz xs today"
  defines "a \<equiv> Date_of_key (Min (insert today (set xs))) - msPerDay - 60 * msPerMinute"
  shows "steady tz a (Date_of_key today)"
    and "\<forall>x \<in> set xs. a + msPerDay + 60 * msPerMinute \<le> Date_of_key x"
    and "a + msPerDay + 60 * msPerMinute \<le> Date_of_key today"
proof -
  show "steady tz a (Date_of_key today)"
    using w by (simp add: walk_steady_def a_def)
  have m: "Min (insert today (set xs)) \<le> x" if "x \<in> insert today (set xs)" for x
    using that by (intro Min_le) simp_all
  have k: "Date_of_key u \<le> Date_of_key v" if "u \<le> v" for u v
    using that msPerDay_pos by (simp add: Date_of_key_def MakeDate_def)
  show "\<forall>x \<in> set xs. a + msPerDay + 60 * msPerMinute \<le> Date_of_key x"
    using m k by (simp add: a_def)
  show "a + msPerDay + 60 * msPerMinute \<le> Date_of_key today"
    using m k by (simp add: a_def)
qed

lemma first_step_back:
  assumes w: "walk_steady tz xs today"
  shows "setDate tz (Date_of_key today) (getDate tz (Date_of_key today) - 1) =
           Date_of_key today - msPerDay"
  using walk_steady_bounds(1) [OF w] walk_steady_bounds(3) [OF w]
  by (rule setDate_steady) simp

lemma second_step_back:
  assumes w: "walk_steady tz xs today" and y: "today - 1 \<in> set xs"
  shows "setDate tz (Date_of_key today - msPerDay)
           (getDate tz (Date_of_key today - msPerDay) - 1) =
         Date_of_key today - msPerDay - msPerDay"
proof -
  have "Date_of_key (today - 1) = Date_of_key today - msPerDay"
    by (simp add: Date_of_key_def MakeDate_def algebra_simps)
  with walk_steady_bounds(2) [OF w] y
  have "Date_of_key (Min (insert today (set xs))) - msPerDay - 60 * msPerMinute
          + msPerDay + 60 * msPerMinute \<le> Date_of_key today - msPerDay"
    by auto
  with walk_steady_bounds(1) [OF w] show ?thesis
    by (rule setDate_steady) (use msPerDay_pos in simp)
qed

text \<open>
  Where the offset of the zone is steady over the walk, the current streak is the length
  of the run that ends today; or, with today absent, of the run that ends yesterday; or 0
  with both absent.
\<close>

lemma current_streak_today:
  assumes w: "walk_steady tz (appOpens data) (getTodayDate now)"
    and a: "getTodayDate now \<in> set (appOpens data)"
  shows "run_ending_at (set (appOpens data)) (getTodayDate now)
           (currentStreak (updateStreak tz now data))"
proof -
  let ?xs = "appOpens data" and ?today = "getTodayDate now"
  from a have ne: "sort ?xs \<noteq> []" by (auto simp: sort_eq_Nil)
  have lo: "\<forall>x \<in> set (sort ?xs).
      Date_of_key (Min (insert ?today (set ?xs))) - msPerDay - 60 * msPerMinute
        + msPerDay + 60 * msPerMinute \<le> Date_of_key x"
    using walk_steady_bounds(2) [OF w] by simp
  have "run_ending_at (set (sort ?xs)) ?today
          (streak_loop tz (sort ?xs) 1 (Date_of_key ?today - msPerDay))"
    using walk_steady_bounds(1) [OF w] lo
    by (rule streak_loop_from_1)
      (use msPerDay_pos a in \<open>simp_all add: toISODate_back toISODate_of_key\<close>)
  with a ne show ?thesis
    by (simp add: currentStreak_updateStreak first_step_back [OF w])
qed

lemma current_streak_yesterday:
  assumes w: "walk_steady tz (appOpens data) (getTodayDate now)"
    and a: "getTodayDate now \<notin> set (appOpens data)"
    and b: "getTodayDate now - 1 \<in> set (appOpens data)"
  shows "run_ending_at (set (appOpens data)) (getTodayDate now - 1)
           (currentStreak (updateStreak tz now data))"
proof -
  let ?xs = "appOpens data" and ?today = "getTodayDate now"
  from b have ne: "sort ?xs \<noteq> []" by (auto simp: sort_eq_Nil)
  have lo: "\<forall>x \<in> set (sort ?xs).
      Date_of_key (Min (insert ?today (set ?xs))) - msPerDay - 60 * msPerMinute
        + msPerDay + 60 * msPerMinute \<le> Date_of_key x"
    using walk_steady_bounds(2) [OF w] by simp
  have "run_ending_at (set (sort ?xs)) (?today - 1)
          (streak_loop tz (sort ?xs) 1 (Date_of_key ?today - msPerDay - msPerDay))"
    using walk_steady_bounds(1) [OF w] lo
    by (rule streak_loop_from_1)
      (use msPerDay_pos b in \<open>simp_all add: toISODate_minus toISODate_of_key\<close>)
  with a b ne show ?thesis
    by (simp add: currentStreak_updateStreak first_step_back [OF w]
        second_step_back [OF w b] toISODate_back toISODate_of_key)
qed

lemma current_streak_neither:
  assumes w: "walk_steady tz (appOpens data) (getTodayDate now)"
    and "getTodayDate now \<notin> set (appOpens data)"
    and "getTodayDate now - 1 \<notin> set (appOpens data)"
  shows "currentStreak (updateStreak tz now data) = 0"
  using assms(2,3)
  by (simp add: currentStreak_updateStreak first_step_back [OF w] toISODate_back
      toISODate_of_key)

lemma current_streak_steady:
  assumes w: "walk_steady tz (appOpens data) (getTodayDate now)"
  shows "(getTodayDate now \<in> set (appOpens data) \<longrightarrow>
            run_ending_at (set (appOpens data)) (getTodayDate now)
              (currentStreak (updateStreak tz now data))) \<and>
         (getTodayDate now \<notin> set (appOpens data) \<and>
          getTodayDate now - 1 \<in> set (appOpens data) \<longrightarrow>
            run_ending_at (set (appOpens data)) (getTodayDate now - 1)
              (currentStreak (updateStreak tz now data))) \<and>
         (getTodayDate now \<notin> set (appOpens data) \<and>
          getTodayDate now - 1 \<notin> set (appOpens data) \<longrightarrow>
            currentStreak (updateStreak tz now data) = 0)"
  using current_streak_today [OF w] current_streak_yesterday [OF w]
    current_streak_neither [OF w]
  by blast

lemma DateKey_2024_01: "DateKey 2024 1 d = 19722 + d"
  by (simp add: DateKey_def MakeDay_def DayFromYear_def daysBeforeMonth_def)

lemma getTodayDate_of_key: "getTodayDate (Date_of_key k) = k"
  by (simp add: getTodayDate_def toISODate_of_key)

lemma scenario_three_days_current:
  assumes w: "walk_steady tz [DateKey 2024 1 1, DateKey 2024 1 2, DateKey 2024 1 3]
                (DateKey 2024 1 3)"
  shows "currentStreak (updateStreak tz (Date_of_key (DateKey 2024 1 3))
     (data\<lparr>appOpens := [DateKey 2024 1 1, DateKey 2024 1 2, DateKey 2024 1 3]\<rparr>)) = 3"
proof -
  let ?d = "data\<lparr>appOpens := [DateKey 2024 1 1, DateKey 2024 1 2, DateKey 2024 1 3]\<rparr>"
  let ?now = "Date_of_key (DateKey 2024 1 3)"
  have "run_ending_at (set (appOpens ?d)) (getTodayDate ?now)
          (currentStreak (updateStreak tz ?now ?d))"
    using w by (intro current_streak_today) (simp_all add: getTodayDate_of_key)
  moreover have "run_ending_at (set (appOpens ?d)) (getTodayDate ?now) 3"
    by (simp add: run_ending_at_def getTodayDate_of_key DateKey_2024_01 less_Suc_eq
        numeral_3_eq_3)
  ultimately show ?thesis by (rule run_ending_at_unique)
qed

text \<open>
  Central European time in 2024: one hour ahead of UTC, two hours from 31 March 01:00 UTC
  until 27 October 01:00 UTC.
\<close>

definition Europe_Berlin_2024 :: zone where
  "Europe_Berlin_2024 =
     \<lparr>std_offset = 60,
      dst_from = Date_of_key (DateKey 2024 3 31) + 60 * msPerMinute,
      dst_until = Date_of_key (DateKey 2024 10 27) + 60 * msPerMinute\<rparr>"

text \<open>
  C1 at the end of daylight saving. The zone is Central European time and the clock reads
  noon UTC on 2024-10-28. Stepping one local day back from 2024-10-28T00:00Z, which is
  01:00 local time, gives 01:00 local time on 27 October, still summer time, which is
  2024-10-26T23:00Z: the walk goes from the key 2024-10-28 to the key 2024-10-26 and never
  looks at 2024-10-27. With the app opened on 26 and 28 October only, the stored current
  streak is 2, although the run of days that ends today has length 1. With the app opened
  on 27 and 28 October only, it is 1, although that run has length 2.
\<close>

theorem C1_streak_across_dst_end:
  "getTodayDate (Date_of_key (DateKey 2024 10 28) + 12 * 60 * msPerMinute) = DateKey 2024 10 28 \<and>
   DateKey_text (toISODate (setDate Europe_Berlin_2024 (Date_of_key (DateKey 2024 10 28))
      (getDate Europe_Berlin_2024 (Date_of_key (DateKey 2024 10 28)) - 1))) = ''2024-10-26'' \<and>
   DateKey 2024 10 28 - 1 \<notin> set [DateKey 2024 10 26, DateKey 2024 10 28] \<and>
   currentStreak (updateStreak Europe_Berlin_2024
      (Date_of_key (DateKey 2024 10 28) + 12 * 60 * msPerMinute)
      (ledger_with_opens [DateKey 2024 10 26, DateKey 2024 10 28])) = 2 \<and>
   DateKey 2024 10 28 - 1 \<in> set [DateKey 2024 10 27, DateKey 2024 10 28] \<and>
   DateKey 2024 10 28 - 2 \<notin> set [DateKey 2024 10 27, DateKey 2024 10 28] \<and>
   currentStreak (updateStreak Europe_Berlin_2024
      (Date_of_key (DateKey 2024 10 28) + 12 * 60 * msPerMinute)
      (ledger_with_opens [DateKey 2024 10 27, DateKey 2024 10 28])) = 1"
  by code_simp

subsection \<open>The best streak\<close>

text \<open>
  \<open>consecutive_days A d n\<close>: the \<open>n\<close> calendar days that end at \<open>d\<close> are all in \<open>A\<close>.
  \<open>longest_run A l\<close>: \<open>l\<close> is the length of the longest run of consecutive calendar days
  of \<open>A\<close>. \<open>runs_upto ys i m\<close>, for the proof of the scan: \<open>m\<close> is the longest of the
  runs that end at one of the first \<open>i\<close> dates of \<open>ys\<close>.
\<close>

definition consecutive_days :: "datekey set \<Rightarrow> datekey \<Rightarrow> nat \<Rightarrow> bool" where
  "consecutive_days A d n = (\<forall>k<n. d - int k \<in> A)"

definition longest_run :: "datekey set \<Rightarrow> nat \<Rightarrow> bool" where
  "longest_run A l = ((\<exists>d. consecutive_days A d l) \<and> (\<forall>d n. consecutive_days A d n \<longrightarrow> n \<le> l))"

definition runs_upto :: "datekey list \<Rightarrow> nat \<Rightarrow> nat \<Rightarrow> bool" where
  "runs_upto ys i m =
     ((\<exists>j<i. run_ending_at (set ys) (ys ! j) m) \<and>
      (\<forall>j<i. \<forall>n. run_ending_at (set ys) (ys ! j) n \<longrightarrow> n \<le> m))"

lemma Date_of_key_diff:
  "(Date_of_key a - Date_of_key b) div 86400000 = a - b"
proof -
  have "Date_of_key a - Date_of_key b = (a - b) * 86400000"
    by (simp add: Date_of_key_def MakeDate_def msPerDay_def algebra_simps)
  then show ?thesis by simp
qed

lemma sort_map_Date_of_key: "sorted ys \<Longrightarrow> sort (map Date_of_key ys) = map Date_of_key ys"
proof -
  assume "sorted ys"
  then have "sorted (map Date_of_key ys)"
    unfolding sorted_map
    by (rule sorted_wrt_mono_rel [rotated])
      (simp add: Date_of_key_def MakeDate_def msPerDay_def)
  then show ?thesis by (rule sorted_sort_id)
qed

lemma run_ending_at_exists: "\<exists>n. run_ending_at (set xs) d n"
proof -
  have w: "walk_steady (fixed_zone 0) xs d"
    by (simp add: no_dst_walk_steady no_dst_fixed_zone)
  from streak_loop_run [OF walk_steady_bounds(1) [OF w] walk_steady_bounds(2) [OF w],
      of "Date_of_key d" 0]
  show ?thesis by (auto simp: toISODate_of_key)
qed

lemma run_ending_at_pos: "d \<in> A \<Longrightarrow> run_ending_at A d n \<Longrightarrow> 0 < n"
  by (cases n) (auto simp: run_ending_at_def)

lemma run_ending_at_1: "d \<in> A \<Longrightarrow> d - 1 \<notin> A \<Longrightarrow> run_ending_at A d 1"
  by (simp add: run_ending_at_def)

lemma strict_sorted_nth_le:
  assumes "sorted_wrt (<) ys" and "i \<le> j" and "j < length ys"
  shows "ys ! i \<le> (ys ! j :: int)"
proof (cases "i = j")
  case True
  then show ?thesis by simp
next
  case False
  with assms have "ys ! i < ys ! j"
    by (intro sorted_wrt_nth_less [where P = "(<)"]) simp_all
  then show ?thesis by simp
qed

lemma strict_sorted_gap:
  assumes s: "sorted_wrt (<) ys" and i: "0 < i" "i < length ys"
    and g: "ys ! i - ys ! (i - 1) \<noteq> 1"
  shows "ys ! i - 1 \<notin> set (ys :: int list)"
proof
  assume "ys ! i - 1 \<in> set ys"
  then obtain j where j: "j < length ys" "ys ! j = ys ! i - 1"
    by (auto simp: in_set_conv_nth)
  have "j < i"
  proof (rule ccontr)
    assume "\<not> j < i"
    then have "i \<le> j" by simp
    then have "ys ! i \<le> ys ! j"
      using s j(1) by (intro strict_sorted_nth_le)
    with j(2) show False by simp
  qed
  then have "j \<le> i - 1" by simp
  then have "ys ! j \<le> ys ! (i - 1)"
    using s i by (intro strict_sorted_nth_le) simp_all
  moreover have "ys ! (i - 1) < ys ! i"
    using s i by (intro sorted_wrt_nth_less [where P = "(<)"]) simp_all
  ultimately show False using j(2) g by simp
qed

lemma strict_sorted_first:
  assumes s: "sorted_wrt (<) ys" and i: "0 < length ys"
  shows "ys ! 0 - 1 \<notin> set (ys :: int list)"
proof
  assume "ys ! 0 - 1 \<in> set ys"
  then obtain j where j: "j < length ys" "ys ! j = ys ! 0 - 1"
    by (auto simp: in_set_conv_nth)
  have "ys ! 0 \<le> ys ! j"
    using s j(1) by (intro strict_sorted_nth_le) simp_all
  with j(2) show False by simp
qed

lemma runs_upto_extend:
  assumes r: "runs_upto ys i m" and c: "run_ending_at (set ys) (ys ! i) c"
  shows "runs_upto ys (Suc i) (max m c)"
  unfolding runs_upto_def
proof (intro conjI allI impI)
  from r obtain j where j: "j < i" "run_ending_at (set ys) (ys ! j) m"
    by (auto simp: runs_upto_def)
  show "\<exists>j<Suc i. run_ending_at (set ys) (ys ! j) (max m c)"
  proof (cases "m \<le> c")
    case True
    then have "max m c = c" by simp
    with c show ?thesis by auto
  next
    case False
    then have "max m c = m" by simp
    with j show ?thesis using less_SucI by metis
  qed
next
  fix j n assume jn: "j < Suc i" "run_ending_at (set ys) (ys ! j) n"
  show "n \<le> max m c"
  proof (cases "j = i")
    case True
    with jn c have "n = c" using run_ending_at_unique by blast
    then show ?thesis by simp
  next
    case False
    with jn have "j < i" by simp
    with r jn(2) have "n \<le> m" by (auto simp: runs_upto_def)
    then show ?thesis by simp
  qed
qed


lemma best_loop_inv:
  assumes s: "sorted_wrt (<) ys"
  shows "0 < i \<Longrightarrow> i \<le> length ys \<Longrightarrow> run_ending_at (set ys) (ys ! (i - 1)) temp \<Longrightarrow>
         runs_upto ys i (max best temp) \<Longrightarrow>
         runs_upto ys (length ys)
           (case best_loop (map Date_of_key ys) i best temp of (b, t) \<Rightarrow> max b t)"
proof (induction n \<equiv> "length ys - i" arbitrary: i best temp)
  case 0
  then have "i = length ys" by simp
  then have "best_loop (map Date_of_key ys) i best temp = (best, temp)"
    by (subst best_loop.simps) simp
  with 0 show ?case by simp
next
  case (Suc n)
  then have i: "0 < i" "i < length ys" by simp_all
  have mem: "ys ! i \<in> set ys" using i by simp
  have len: "n = length ys - (i + 1)" using Suc.hyps(2) by simp
  show ?case
  proof (cases "ys ! i - ys ! (i - 1) = 1")
    case True
    have unf: "best_loop (map Date_of_key ys) i best temp =
               best_loop (map Date_of_key ys) (i + 1) best (temp + 1)"
      using i True by (subst best_loop.simps) (simp add: Let_def Date_of_key_diff)
    from True have "ys ! i - 1 = ys ! (i - 1)" by simp
    with Suc.prems(3) have "run_ending_at (set ys) (ys ! i - 1) temp" by simp
    with mem have run: "run_ending_at (set ys) (ys ! i) (temp + 1)"
      by (simp add: run_ending_at_step)
    from runs_upto_extend [OF Suc.prems(4) run]
    have "runs_upto ys (i + 1) (max best (temp + 1))"
      by (simp add: max_def split: if_splits)
    with Suc.hyps(1) [OF len, where best = best and temp = "temp + 1"] i run show ?thesis
      by (simp add: unf)
  next
    case False
    have unf: "best_loop (map Date_of_key ys) i best temp =
               best_loop (map Date_of_key ys) (i + 1) (max best temp) 1"
      using i False by (subst best_loop.simps) (simp add: Let_def Date_of_key_diff)
    have "ys ! i - 1 \<notin> set ys"
      using s i False by (rule strict_sorted_gap)
    with mem have run: "run_ending_at (set ys) (ys ! i) 1"
      by (rule run_ending_at_1)
    from runs_upto_extend [OF Suc.prems(4) run]
    have "runs_upto ys (i + 1) (max (max best temp) 1)"
      by simp
    with Suc.hyps(1) [OF len, where best = "max best temp" and temp = 1] i run show ?thesis
      by (simp add: unf)
  qed
qed

lemma runs_upto_first:
  assumes run: "run_ending_at (set ys) (ys ! 0) c"
  shows "runs_upto ys 1 c"
  unfolding runs_upto_def
proof (intro conjI allI impI)
  show "\<exists>j<1. run_ending_at (set ys) (ys ! j) c"
    using run by (intro exI [of _ 0]) simp
next
  fix j n assume "j < (1::nat)" and "run_ending_at (set ys) (ys ! j) n"
  then have "run_ending_at (set ys) (ys ! 0) n" by simp
  then have "n = c" using run by (rule run_ending_at_unique)
  then show "n \<le> c" by simp
qed

lemma best_loop_runs:
  assumes s: "sorted_wrt (<) ys" and ne: "ys \<noteq> []"
  shows "runs_upto ys (length ys)
           (case best_loop (map Date_of_key ys) 0 0 0 of (b, t) \<Rightarrow> max b t)"
proof -
  have unf: "best_loop (map Date_of_key ys) 0 0 0 = best_loop (map Date_of_key ys) 1 0 1"
    using ne by (subst best_loop.simps) simp
  have "ys ! 0 \<in> set ys" using ne by simp
  moreover have "ys ! 0 - 1 \<notin> set ys"
    using s ne by (intro strict_sorted_first) simp_all
  ultimately have run: "run_ending_at (set ys) (ys ! 0) 1"
    by (rule run_ending_at_1)
  then have up: "runs_upto ys 1 (max 0 1)"
    using runs_upto_first [of ys 1] by simp
  have len: "1 \<le> length ys" using ne by (simp add: Suc_le_eq)
  have "runs_upto ys (length ys)
          (case best_loop (map Date_of_key ys) 1 0 1 of (b, t) \<Rightarrow> max b t)"
    using run up len by (intro best_loop_inv [OF s]) simp_all
  then show ?thesis by (simp only: unf)
qed

lemma consecutive_days_le_run:
  assumes c: "consecutive_days A d n" and r: "run_ending_at A d m"
  shows "n \<le> m"
proof (rule ccontr)
  assume "\<not> n \<le> m"
  then have "m < n" by simp
  with c have "d - int m \<in> A" by (simp add: consecutive_days_def)
  with r show False by (simp add: run_ending_at_def)
qed

lemma runs_upto_longest:
  assumes r: "runs_upto ys (length ys) l"
  shows "longest_run (set ys) l"
  unfolding longest_run_def
proof (intro conjI allI impI)
  from r obtain j where "j < length ys" "run_ending_at (set ys) (ys ! j) l"
    by (auto simp: runs_upto_def)
  then have "consecutive_days (set ys) (ys ! j) l"
    by (simp add: run_ending_at_def consecutive_days_def)
  then show "\<exists>d. consecutive_days (set ys) d l" ..
next
  fix d n assume c: "consecutive_days (set ys) d n"
  show "n \<le> l"
  proof (cases n)
    case 0
    then show ?thesis by simp
  next
    case (Suc k)
    with c have "d \<in> set ys" by (auto simp: consecutive_days_def)
    then obtain j where j: "j < length ys" "ys ! j = d"
      by (auto simp: in_set_conv_nth)
    obtain m where m: "run_ending_at (set ys) d m"
      using run_ending_at_exists by blast
    with c have "n \<le> m" by (rule consecutive_days_le_run)
    moreover from r j m have "m \<le> l" by (auto simp: runs_upto_def)
    ultimately show ?thesis by simp
  qed
qed


lemma sort_map_Date_of_key_sort:
  "sort (map Date_of_key (sort xs)) = map Date_of_key (sort xs)"
  by (rule sort_map_Date_of_key) simp



lemma bestStreak_updateStreak:
  assumes ne: "appOpens data \<noteq> []"
  shows "bestStreak (updateStreak tz now data) =
           max (case best_loop (map Date_of_key (sort (appOpens data))) 0 0 0 of
                  (b, t) \<Rightarrow> max b t)
               (currentStreak (updateStreak tz now data))"
proof -
  obtain b t where bt: "best_loop (map Date_of_key (sort (appOpens data))) 0 0 0 = (b, t)"
    by force
  show ?thesis
    using ne by (simp add: updateStreak_def Let_def sort_map_Date_of_key_sort bt)
qed

lemma best_streak_longest:
  assumes d: "distinct (appOpens data)" and ne: "appOpens data \<noteq> []"
  shows "\<exists>l. longest_run (set (appOpens data)) l \<and>
             bestStreak (updateStreak tz now data) =
               max l (currentStreak (updateStreak tz now data))"
proof -
  let ?ys = "sort (appOpens data)"
  let ?l = "case best_loop (map Date_of_key ?ys) 0 0 0 of (b, t) \<Rightarrow> max b t"
  have "sorted_wrt (<) ?ys"
    using d by (simp add: strict_sorted_iff)
  moreover have "?ys \<noteq> []" using ne by (auto dest: arg_cong [where f = length])
  ultimately have "runs_upto ?ys (length ?ys) ?l" by (rule best_loop_runs)
  then have "longest_run (set ?ys) ?l" by (rule runs_upto_longest)
  then have "longest_run (set (appOpens data)) ?l" by simp
  moreover have "bestStreak (updateStreak tz now data) =
                   max ?l (currentStreak (updateStreak tz now data))"
    using ne by (simp add: bestStreak_updateStreak)
  ultimately show ?thesis by blast
qed


lemma longest_run_unique: "longest_run A l \<Longrightarrow> longest_run A m \<Longrightarrow> l = m"
  unfolding longest_run_def by (meson le_antisym)

lemma scenario_gap_current:
  assumes w: "walk_steady tz [DateKey 2024 1 1, DateKey 2024 1 3] (DateKey 2024 1 3)"
  shows "currentStreak (updateStreak tz (Date_of_key (DateKey 2024 1 3))
     (data\<lparr>appOpens := [DateKey 2024 1 1, DateKey 2024 1 3]\<rparr>)) = 1"
proof -
  let ?d = "data\<lparr>appOpens := [DateKey 2024 1 1, DateKey 2024 1 3]\<rparr>"
  let ?now = "Date_of_key (DateKey 2024 1 3)"
  have "run_ending_at (set (appOpens ?d)) (getTodayDate ?now)
          (currentStreak (updateStreak tz ?now ?d))"
    using w by (intro current_streak_today) (simp_all add: getTodayDate_of_key)
  moreover have "run_ending_at (set (appOpens ?d)) (getTodayDate ?now) 1"
    by (simp add: run_ending_at_def getTodayDate_of_key DateKey_2024_01)
  ultimately show ?thesis by (rule run_ending_at_unique)
qed

lemma scenario_gap_best:
  assumes w: "walk_steady tz [DateKey 2024 1 1, DateKey 2024 1 3] (DateKey 2024 1 3)"
  shows "bestStreak (updateStreak tz (Date_of_key (DateKey 2024 1 3))
     (data\<lparr>appOpens := [DateKey 2024 1 1, DateKey 2024 1 3]\<rparr>)) = 1"
proof -
  have "best_loop (map Date_of_key [19723, 19725]) 0 0 0 = (1, 1)"
    by (simp add: best_loop.simps Let_def Date_of_key_diff)
  then show ?thesis
    using scenario_gap_current [OF w, of data]
    by (simp add: bestStreak_updateStreak DateKey_2024_01)
qed

lemma updateStreak_empty:
  "appOpens data = [] \<Longrightarrow>
     currentStreak (updateStreak tz now data) = 0 \<and> bestStreak (updateStreak tz now data) = 0"
  by (simp add: updateStreak_def)

text \<open>
  C2. For every non-empty duplicate-free list of app-open dates, every clock reading and
  every zone, the best streak that \<open>updateStreak\<close> stores is the maximum of the length of
  the longest run of consecutive calendar days among the dates and the current streak it
  has just computed. With no app-open date both streaks are 0. For the dates 2024-01-01
  and 2024-01-03 and today 2024-01-03 the current streak is 1 and the best streak is 1,
  in every zone whose offset does not change from 2023-12-30T23:00Z to 2024-01-03T00:00Z.
\<close>

theorem C2_best_streak:
  "(distinct (appOpens data) \<and> appOpens data \<noteq> [] \<longrightarrow>
      (\<exists>l. longest_run (set (appOpens data)) l \<and>
           bestStreak (updateStreak tz now data) =
             max l (currentStreak (updateStreak tz now data)))) \<and>
   (appOpens data = [] \<longrightarrow>
      currentStreak (updateStreak tz now data) = 0 \<and>
      bestStreak (updateStreak tz now data) = 0) \<and>
   (walk_steady tz [DateKey 2024 1 1, DateKey 2024 1 3] (DateKey 2024 1 3) \<longrightarrow>
      currentStreak (updateStreak tz (Date_of_key (DateKey 2024 1 3))
        (data\<lparr>appOpens := [DateKey 2024 1 1, DateKey 2024 1 3]\<rparr>)) = 1 \<and>
      bestStreak (updateStreak tz (Date_of_key (DateKey 2024 1 3))
        (data\<lparr>appOpens := [DateKey 2024 1 1, DateKey 2024 1 3]\<rparr>)) = 1)"
  using best_streak_longest [of data tz now] updateStreak_empty [of data tz now]
    scenario_gap_current [of tz data] scenario_gap_best [of tz data]
  by blast

lemma walk_steady_Berlin_January:
  "walk_steady Europe_Berlin_2024 [DateKey 2024 1 1, DateKey 2024 1 3] (DateKey 2024 1 3)"
  by code_simp

theorem C2_best_streak_witness:
  "distinct (appOpens (ledger_with_opens [1, 3])) \<and>
   appOpens (ledger_with_opens [1, 3]) \<noteq> [] \<and>
   (\<exists>l. longest_run (set (appOpens (ledger_with_opens [1, 3]))) l \<and>
        bestStreak (updateStreak Europe_Berlin_2024 (Date_of_key 3) (ledger_with_opens [1, 3])) =
          max l (currentStreak
                   (updateStreak Europe_Berlin_2024 (Date_of_key 3) (ledger_with_opens [1, 3])))) \<and>
   appOpens (ledger_with_opens []) = [] \<and>
   currentStreak (updateStreak Europe_Berlin_2024 (Date_of_key 3) (ledger_with_opens [])) = 0 \<and>
   bestStreak (updateStreak Europe_Berlin_2024 (Date_of_key 3) (ledger_with_opens [])) = 0 \<and>
   walk_steady Europe_Berlin_2024 [DateKey 2024 1 1, DateKey 2024 1 3] (DateKey 2024 1 3) \<and>
   currentStreak (updateStreak Europe_Berlin_2024 (Date_of_key (DateKey 2024 1 3))
     (ledger_with_opens [DateKey 2024 1 1, DateKey 2024 1 3])) = 1 \<and>
   bestStreak (updateStreak Europe_Berlin_2024 (Date_of_key (DateKey 2024 1 3))
     (ledger_with_opens [DateKey 2024 1 1, DateKey 2024 1 3])) = 1"
  using C2_best_streak [of "ledger_with_opens [1, 3]" Europe_Berlin_2024 "Date_of_key 3"]
    C2_best_streak [of "ledger_with_opens []" Europe_Berlin_2024 "Date_of_key 3"]
    walk_steady_Berlin_January
  by (simp add: ledger_with_opens_def)

subsection \<open>The streak update run twice\<close>

lemma appOpens_updateStreak: "appOpens (updateStreak tz now data) = sort (appOpens data)"
  by (simp add: updateStreak_def Let_def split: prod.splits)

lemma updateStreak_other_fields:
  "activities (updateStreak tz now data) = activities data"
  "dailyData (updateStreak tz now data) = dailyData data"
  "lastResetDate (updateStreak tz now data) = lastResetDate data"
  "theme (updateStreak tz now data) = theme data"
  "lastOpenDate (updateStreak tz now data) = lastOpenDate data"
  "ledger.more (updateStreak tz now data) = ledger.more data"
  by (simp_all add: updateStreak_def Let_def split: prod.splits)

lemma currentStreak_cong:
  assumes "appOpens data = appOpens data'"
  shows "currentStreak (updateStreak tz now data) = currentStreak (updateStreak tz now data')"
  using assms by (simp add: currentStreak_updateStreak)

lemma bestStreak_cong:
  assumes "appOpens data = appOpens data'"
  shows "bestStreak (updateStreak tz now data) = bestStreak (updateStreak tz now data')"
proof (cases "appOpens data = []")
  case True
  with assms show ?thesis by (simp add: updateStreak_empty)
next
  case False
  with assms have "appOpens data' \<noteq> []" by simp
  with False assms currentStreak_cong [OF assms, of tz now] show ?thesis
    by (simp add: bestStreak_updateStreak)
qed

lemma currentStreak_sorted:
  "currentStreak (updateStreak tz now (updateStreak tz now data)) =
   currentStreak (updateStreak tz now data)"
  by (simp add: currentStreak_updateStreak [of tz now "updateStreak tz now data"]
      appOpens_updateStreak sort_idem)
    (simp add: currentStreak_updateStreak)

lemma bestStreak_sorted:
  "bestStreak (updateStreak tz now (updateStreak tz now data)) =
   bestStreak (updateStreak tz now data)"
proof (cases "appOpens data = []")
  case True
  then show ?thesis by (simp add: updateStreak_empty appOpens_updateStreak)
next
  case False
  then have "sort (appOpens data) \<noteq> []"
    by (simp add: sort_eq_Nil)
  with False show ?thesis
    by (simp add: bestStreak_updateStreak appOpens_updateStreak currentStreak_sorted sort_idem)
qed

lemma updateStreak_idem:
  "updateStreak tz now (updateStreak tz now data) = updateStreak tz now data"
  by (rule ledger.equality)
    (simp_all add: updateStreak_other_fields appOpens_updateStreak currentStreak_sorted
      bestStreak_sorted sort_idem)


lemma updateStreak_same_day:
  "getTodayDate now = getTodayDate now' \<Longrightarrow> updateStreak tz now data = updateStreak tz now' data"
  by (simp add: updateStreak_def)

text \<open>
  In one zone the update is idempotent and its result is fixed by the app-open log and
  the key of today: a second run on the same day returns the ledger of the first, and two
  ledgers with the same log get the same pair of streaks on the same day.
\<close>

lemma streaks_in_one_zone:
  assumes "getTodayDate now = getTodayDate now'"
  shows "updateStreak tz now' (updateStreak tz now data) = updateStreak tz now data"
    and "appOpens data = appOpens data' \<Longrightarrow>
         currentStreak (updateStreak tz now data) = currentStreak (updateStreak tz now' data') \<and>
         bestStreak (updateStreak tz now data) = bestStreak (updateStreak tz now' data')"
  using updateStreak_same_day [OF assms, of tz] updateStreak_idem [of tz now data]
    currentStreak_cong [of data data' tz now] bestStreak_cong [of data data' tz now]
  by simp_all

text \<open>West Africa Time: one hour ahead of UTC all year, as in Lagos.\<close>

definition Africa_Lagos :: zone where
  "Africa_Lagos = fixed_zone 60"

text \<open>
  C7 across zones. The pair of streaks is not fixed by the app-open log and today: it
  depends on the zone of the host as well. At noon UTC on 2024-10-28 today is 2024-10-28 in
  Berlin and in Lagos, which share the offset of one hour that day. For the log
  2024-10-26, 2024-10-28 the update gives the streaks 2 and 2 in Berlin, where the walk
  crosses the end of daylight saving, and 1 and 1 in Lagos. Run in Lagos on the ledger
  that the run in Berlin returned, with the same log and the same today, it changes the
  pair from 2 and 2 to 1 and 1.
\<close>

theorem C7_streaks_depend_on_zone:
  "getTodayDate (Date_of_key (DateKey 2024 10 28) + 12 * 60 * msPerMinute) = DateKey 2024 10 28 \<and>
   LocalTime Europe_Berlin_2024 (Date_of_key (DateKey 2024 10 28) + 12 * 60 * msPerMinute) =
     LocalTime Africa_Lagos (Date_of_key (DateKey 2024 10 28) + 12 * 60 * msPerMinute) \<and>
   (currentStreak (updateStreak Europe_Berlin_2024
       (Date_of_key (DateKey 2024 10 28) + 12 * 60 * msPerMinute)
       (ledger_with_opens [DateKey 2024 10 26, DateKey 2024 10 28])),
    bestStreak (updateStreak Europe_Berlin_2024
       (Date_of_key (DateKey 2024 10 28) + 12 * 60 * msPerMinute)
       (ledger_with_opens [DateKey 2024 10 26, DateKey 2024 10 28]))) = (2, 2) \<and>
   (currentStreak (updateStreak Africa_Lagos
       (Date_of_key (DateKey 2024 10 28) + 12 * 60 * msPerMinute)
       (ledger_with_opens [DateKey 2024 10 26, DateKey 2024 10 28])),
    bestStreak (updateStreak Africa_Lagos
       (Date_of_key (DateKey 2024 10 28) + 12 * 60 * msPerMinute)
       (ledger_with_opens [DateKey 2024 10 26, DateKey 2024 10 28]))) = (1, 1) \<and>
   appOpens (updateStreak Europe_Berlin_2024
       (Date_of_key (DateKey 2024 10 28) + 12 * 60 * msPerMinute)
       (ledger_with_opens [DateKey 2024 10 26, DateKey 2024 10 28])) =
     [DateKey 2024 10 26, DateKey 2024 10 28] \<and>
   (currentStreak (updateStreak Africa_Lagos
       (Date_of_key (DateKey 2024 10 28) + 12 * 60 * msPerMinute)
       (updateStreak Europe_Berlin_2024
          (Date_of_key (DateKey 2024 10 28) + 12 * 60 * msPerMinute)
          (ledger_with_opens [DateKey 2024 10 26, DateKey 2024 10 28]))),
    bestStreak (updateStreak Africa_Lagos
       (Date_of_key (DateKey 2024 10 28) + 12 * 60 * msPerMinute)
       (updateStreak Europe_Berlin_2024
          (Date_of_key (DateKey 2024 10 28) + 12 * 60 * msPerMinute)
          (ledger_with_opens [DateKey 2024 10 26, DateKey 2024 10 28])))) = (1, 1)"
  by code_simp

subsection \<open>Toggling an activity\<close>

text \<open>
  \<open>day_flag data date name\<close> is the entry \<^verbatim>\<open>name\<close> that the record of the date holds as its
  own, \<open>None\<close> when the day has no record or the record has no such key. \<open>stored_status\<close>
  reads that entry with a missing key as false. \<open>read_status\<close> is the truth value of what
  \<^verbatim>\<open>toggleActivity\<close> reads before it writes, \<^verbatim>\<open>data.dailyData[date][name] || false\<close>: the
  record is a fresh \<^verbatim>\<open>{}\<close> when the date had none, and the read goes through the prototype.
\<close>

definition day_flag :: "ledger \<Rightarrow> datekey \<Rightarrow> string \<Rightarrow> bool option" where
  "day_flag data date name = (case dailyData data date of None \<Rightarrow> None | Some r \<Rightarrow> r name)"

definition stored_status :: "ledger \<Rightarrow> datekey \<Rightarrow> string \<Rightarrow> bool" where
  "stored_status data date name = (case day_flag data date name of None \<Rightarrow> False | Some b \<Rightarrow> b)"

definition read_status :: "ledger \<Rightarrow> datekey \<Rightarrow> string \<Rightarrow> bool" where
  "read_status data date name =
     ToBoolean (object_get (case dailyData data date of None \<Rightarrow> Map.empty | Some r \<Rightarrow> r) name)"

lemma read_status_cases:
  "read_status data date name =
     (case day_flag data date name of
        Some b \<Rightarrow> b
      | None \<Rightarrow> name \<in> set Object_prototype)"
  by (simp add: read_status_def day_flag_def object_get_def ToBoolean_def split: option.splits)

lemma read_status_stored:
  "name \<notin> set Object_prototype \<Longrightarrow> read_status data date name = stored_status data date name"
  by (simp add: read_status_cases stored_status_def split: option.splits)

lemma ToBoolean_or_false: "ToBoolean (if ToBoolean v then v else Boolean False) = ToBoolean v"
  by (simp add: ToBoolean_def)

lemma toggleActivity_flag:
  "day_flag (fst (toggleActivity fits now name st)) (getTodayDate now) name =
     (if name = ''__proto__'' \<and> day_flag (fst (getData now st)) (getTodayDate now) name = None
      then None
      else Some (\<not> read_status (fst (getData now st)) (getTodayDate now) name))"
proof -
  obtain data st1 where g: "getData now st = (data, st1)" by force
  show ?thesis
    by (auto simp add: toggleActivity_def g Let_def day_flag_def read_status_def
        ToBoolean_or_false object_set_def split: option.splits)
qed

lemma Object_prototype_proto: "''__proto__'' \<in> set Object_prototype"
  by (simp add: Object_prototype_def)

lemma toggleActivity_flag_plain:
  assumes "name \<notin> set Object_prototype"
  shows "day_flag (fst (toggleActivity fits now name st)) (getTodayDate now) name =
           Some (\<not> stored_status (fst (getData now st)) (getTodayDate now) name)"
proof -
  from assms have "name \<noteq> ''__proto__''"
    using Object_prototype_proto by auto
  with assms show ?thesis
    by (simp add: toggleActivity_flag read_status_stored)
qed

lemma toggleActivity_flag_inherited:
  assumes "name \<in> set Object_prototype" and "name \<noteq> ''__proto__''"
    and "day_flag (fst (getData now st)) (getTodayDate now) name = None"
  shows "day_flag (fst (toggleActivity fits now name st)) (getTodayDate now) name = Some False"
  using assms by (simp add: toggleActivity_flag read_status_cases)

lemma toggleActivity_activities:
  "activities (fst (toggleActivity fits now name st)) = activities (fst (getData now st))"
proof -
  obtain data st1 where g: "getData now st = (data, st1)" by force
  show ?thesis
    by (simp add: toggleActivity_def g Let_def)
qed

lemma toggleActivity_others:
  "date \<noteq> getTodayDate now \<or> a \<noteq> name \<Longrightarrow>
   day_flag (fst (toggleActivity fits now name st)) date a = day_flag (fst (getData now st)) date a"
proof -
  assume h: "date \<noteq> getTodayDate now \<or> a \<noteq> name"
  obtain data st1 where g: "getData now st = (data, st1)" by force
  show ?thesis using h
    by (auto simp add: toggleActivity_def g Let_def day_flag_def object_set_def
        split: option.splits)
qed

lemma toggleActivity_saved:
  "fits (fst (toggleActivity fits now name st)) \<Longrightarrow>
   snd (toggleActivity fits now name st) = Some (fst (toggleActivity fits now name st))"
proof -
  obtain data st1 where g: "getData now st = (data, st1)" by force
  assume "fits (fst (toggleActivity fits now name st))"
  then show ?thesis
    by (simp add: toggleActivity_def g Let_def saveData_def)
qed

lemma getData_Some: "getData now (Some d) = (d, Some d)"
  by (simp add: getData_def)

text \<open>
  For a name that \<^verbatim>\<open>Object.prototype\<close> does not have, a toggle stores the negation of the
  stored flag, a missing key read as false, so \<open>dailyData\<close> changes; and two toggles of an
  untracked activity, the first of them saved, leave the flag \<open>False\<close>.
\<close>

lemma toggle_twice_plain:
  assumes p: "name \<notin> set Object_prototype"
    and u: "day_flag (fst (getData now st)) (getTodayDate now) name = None"
    and f: "fits (fst (toggleActivity fits now name st))"
  shows "day_flag (fst (toggleActivity fits now name (snd (toggleActivity fits now name st))))
           (getTodayDate now) name = Some False"
proof -
  let ?d1 = "fst (toggleActivity fits now name st)"
  have s1: "snd (toggleActivity fits now name st) = Some ?d1"
    using f by (rule toggleActivity_saved)
  have "day_flag ?d1 (getTodayDate now) name = Some True"
    using u by (simp add: toggleActivity_flag_plain [OF p] stored_status_def)
  then have "stored_status ?d1 (getTodayDate now) name" by (simp add: stored_status_def)
  then show ?thesis
    by (simp add: s1 toggleActivity_flag_plain [OF p] getData_Some)
qed

lemma toggleActivity_changes:
  assumes "name \<notin> set Object_prototype"
  shows "dailyData (fst (toggleActivity fits now name st)) \<noteq> dailyData (fst (getData now st))"
proof
  assume "dailyData (fst (toggleActivity fits now name st)) = dailyData (fst (getData now st))"
  then have "day_flag (fst (toggleActivity fits now name st)) (getTodayDate now) name =
             day_flag (fst (getData now st)) (getTodayDate now) name"
    by (simp add: day_flag_def)
  then show False
    by (simp add: toggleActivity_flag_plain [OF assms] stored_status_def split: option.splits)
qed

text \<open>
  The store after \<^verbatim>\<open>addActivity("constructor")\<close> on a first visit, and after
  \<^verbatim>\<open>addActivity("__proto__")\<close>.
\<close>

definition store_constructor :: storage where
  "store_constructor = snd (addActivity unlimited 0 ''constructor'' None)"

definition store_proto :: storage where
  "store_proto = snd (addActivity unlimited 0 ''__proto__'' None)"

text \<open>
  C10 for an activity named like a member of \<^verbatim>\<open>Object.prototype\<close>. \<^verbatim>\<open>constructor\<close> is a
  valid activity name and \<^verbatim>\<open>addActivity\<close> stores it. No day record holds the key, so the
  value read before the first toggle is to be false and the toggle is to store \<open>True\<close>.
  But \<^verbatim>\<open>data.dailyData[today]["constructor"]\<close> is the inherited function \<^verbatim>\<open>Object\<close>, which
  counts as true: the first toggle stores \<open>False\<close>, and the second toggle, which now reads
  the own flag, stores \<open>True\<close>. Two toggles of the untracked activity leave it completed,
  not stored as false. For \<^verbatim>\<open>__proto__\<close> the assignment meets the setter and the record
  holds no key after the toggle.
\<close>

theorem C10_toggle_inherited_name:
  "map_option activities store_constructor = Some [''constructor''] \<and>
   day_flag (fst (getData 0 store_constructor)) (getTodayDate 0) ''constructor'' = None \<and>
   day_flag (fst (toggleActivity unlimited 0 ''constructor'' store_constructor))
     (getTodayDate 0) ''constructor'' = Some False \<and>
   day_flag (fst (toggleActivity unlimited 0 ''constructor''
       (snd (toggleActivity unlimited 0 ''constructor'' store_constructor))))
     (getTodayDate 0) ''constructor'' = Some True \<and>
   map_option activities store_proto = Some [''__proto__''] \<and>
   day_flag (fst (toggleActivity unlimited 0 ''__proto__'' store_proto))
     (getTodayDate 0) ''__proto__'' = None"
  by code_simp

text \<open>
  C5, as the code has it. \<open>toggleActivity\<close> makes no membership check and has no failure
  exit: for a name that is not in \<open>activities\<close> it leaves \<open>activities\<close> as it is. When the
  name is not one of \<^verbatim>\<open>Object.prototype\<close> either, it writes the key into the record of
  today, with the negation of the stored flag (a missing key read as false), so
  \<open>dailyData\<close> changes.
\<close>

theorem C5_toggle_unknown_name:
  "name \<notin> set (activities (fst (getData now st))) \<longrightarrow>
     activities (fst (toggleActivity fits now name st)) = activities (fst (getData now st)) \<and>
     (name \<notin> set Object_prototype \<longrightarrow>
        day_flag (fst (toggleActivity fits now name st)) (getTodayDate now) name =
          Some (\<not> stored_status (fst (getData now st)) (getTodayDate now) name) \<and>
        dailyData (fst (toggleActivity fits now name st)) \<noteq> dailyData (fst (getData now st)))"
  using toggleActivity_flag_plain [of name fits now st]
    toggleActivity_activities [of fits now name st]
    toggleActivity_changes [of name fits now st]
  by blast

theorem C5_toggle_unknown_name_witness:
  "''Ghost'' \<notin> set (activities (fst (getData 0 None))) \<and>
   ''Ghost'' \<notin> set Object_prototype \<and>
   activities (fst (toggleActivity unlimited 0 ''Ghost'' None)) = [] \<and>
   day_flag (fst (toggleActivity unlimited 0 ''Ghost'' None)) (getTodayDate 0) ''Ghost'' =
     Some True \<and>
   dailyData (fst (toggleActivity unlimited 0 ''Ghost'' None)) \<noteq> dailyData (fst (getData 0 None))"
proof -
  have a: "activities (fst (getData 0 None)) = []"
    by (simp add: getData_def initializeData_def Let_def)
  have p: "''Ghost'' \<notin> set Object_prototype"
    by (simp add: Object_prototype_def)
  have u: "day_flag (fst (getData 0 None)) (getTodayDate 0) ''Ghost'' = None"
    by (simp add: day_flag_def getData_def initializeData_def Let_def)
  show ?thesis
    using C5_toggle_unknown_name [of "''Ghost''" 0 None unlimited] a p u
    by (simp add: stored_status_def)
qed

text \<open>
  C5 as the specification words it (an unknown name is refused and \<open>dailyData\<close> stays as
  it is) fails on a fresh ledger: no activity is defined, and toggling
  \<^verbatim>\<open>Ghost\<close> stores the flag \<open>True\<close> for it.
\<close>

theorem C5_unknown_name_counterexample:
  "''Ghost'' \<notin> set (activities (fst (getData 0 None))) \<and>
   day_flag (fst (getData 0 None)) (getTodayDate 0) ''Ghost'' = None \<and>
   day_flag (fst (toggleActivity unlimited 0 ''Ghost'' None)) (getTodayDate 0) ''Ghost'' =
     Some True \<and>
   snd (toggleActivity unlimited 0 ''Ghost'' None) =
     Some (fst (toggleActivity unlimited 0 ''Ghost'' None))"
proof -
  have a: "activities (fst (getData 0 None)) = []"
    by (simp add: getData_def initializeData_def Let_def)
  have p: "''Ghost'' \<notin> set Object_prototype"
    by (simp add: Object_prototype_def)
  have u: "day_flag (fst (getData 0 None)) (getTodayDate 0) ''Ghost'' = None"
    by (simp add: day_flag_def getData_def initializeData_def Let_def)
  show ?thesis
    using a u toggleActivity_flag_plain [OF p, of unlimited 0 None]
      toggleActivity_saved [of unlimited 0 "''Ghost''" None]
    by (simp add: stored_status_def unlimited_def)
qed

subsection \<open>Deleting an activity\<close>

lemma deleteActivity_declined: "deleteActivity False fits now name st = (None, st)"
  by (simp add: deleteActivity_def)

text \<open>\<open>deleted_from name data\<close> is the ledger a confirmed \<open>deleteActivity\<close> hands to \<open>saveData\<close>.\<close>

definition deleted_from :: "string \<Rightarrow> ledger \<Rightarrow> ledger" where
  "deleted_from name data =
     data\<lparr>activities := filter (\<lambda>a. a \<noteq> name) (activities data),
          dailyData := (\<lambda>date. map_option (\<lambda>r. r(name := None)) (dailyData data date))\<rparr>"

lemma deleteActivity_confirmed:
  "deleteActivity True fits now name st =
     (Some (deleted_from name (fst (getData now st))),
      saveData fits (deleted_from name (fst (getData now st))) (snd (getData now st)))"
proof -
  obtain data st1 where g: "getData now st = (data, st1)" by force
  have "(\<lambda>date. case dailyData data date of None \<Rightarrow> None
           | Some dayRecord \<Rightarrow> if object_get dayRecord name \<noteq> Undefined
                              then Some (dayRecord(name := None))
                              else Some dayRecord) =
        (\<lambda>date. map_option (\<lambda>r. r(name := None)) (dailyData data date))"
    by (auto simp: fun_eq_iff object_get_def split: option.splits)
  then show ?thesis
    by (simp add: deleteActivity_def g Let_def deleted_from_def)
qed

lemma filter_neq_id: "name \<notin> set xs \<Longrightarrow> filter (\<lambda>a. a \<noteq> name) xs = xs"
  by (induction xs) auto

lemma deleted_from_activities: "name \<notin> set (activities (deleted_from name data))"
  by (simp add: deleted_from_def)

lemma deleted_from_flag: "day_flag (deleted_from name data) date name = None"
  by (simp add: deleted_from_def day_flag_def split: option.splits)

lemma deleted_from_no_key:
  "dailyData (deleted_from name data) date = Some r \<Longrightarrow> r name = None"
  by (auto simp: deleted_from_def)

lemma deleted_from_other_flag:
  "a \<noteq> name \<Longrightarrow> day_flag (deleted_from name data) date a = day_flag data date a"
  by (simp add: deleted_from_def day_flag_def split: option.splits)

lemma deleted_from_dom: "dom (dailyData (deleted_from name data)) = dom (dailyData data)"
  by (auto simp: deleted_from_def dom_def)

lemma deleted_from_unknown_activities:
  "name \<notin> set (activities data) \<Longrightarrow> activities (deleted_from name data) = activities data"
  by (simp add: deleted_from_def filter_neq_id)

lemma deleted_from_noop:
  assumes "name \<notin> set (activities data)" and "\<forall>date. day_flag data date name = None"
  shows "deleted_from name data = data"
proof -
  have "(\<lambda>date. map_option (\<lambda>r. r(name := None)) (dailyData data date)) = dailyData data"
  proof
    fix date
    show "map_option (\<lambda>r. r(name := None)) (dailyData data date) = dailyData data date"
    proof (cases "dailyData data date")
      case None
      then show ?thesis by simp
    next
      case (Some r)
      with assms(2) have "r name = None" by (auto simp: day_flag_def split: option.splits)
      then have "r(name := None) = r" by (simp add: fun_upd_idem_iff)
      with Some show ?thesis by simp
    qed
  qed
  with assms(1) show ?thesis
    by (simp add: deleted_from_def filter_neq_id)
qed

lemma addActivity_success:
  assumes "fst (addActivity fits now raw st) = Inr d1"
  shows "\<exists>name. validateActivityName raw = Some name \<and>
           name \<notin> set (activities (fst (getData now st))) \<and>
           length (activities (fst (getData now st))) < 50 \<and>
           d1 = (fst (getData now st))\<lparr>activities := activities (fst (getData now st)) @ [name]\<rparr> \<and>
           snd (addActivity fits now raw st) = saveData fits d1 (snd (getData now st))"
proof -
  obtain data st1 where g: "getData now st = (data, st1)" by force
  show ?thesis
    using assms
    by (auto simp add: addActivity_def g Let_def split: option.splits if_splits)
qed


lemma getData_storage: "snd (getData now st) = Some (fst (getData now st))"
  by (cases st) (simp_all add: getData_def initializeData_def Let_def)

lemma getData_saved:
  "fst (getData now (saveData fits d (snd (getData now' st)))) =
     (if fits d then d else fst (getData now' st))"
  by (cases st) (simp_all add: saveData_def getData_def initializeData_def Let_def)

lemma add_then_delete:
  assumes a: "fst (addActivity fits now raw st) = Inr d1"
  shows "\<exists>nm d3. validateActivityName raw = Some nm \<and>
           fst (deleteActivity True fits' now' nm (snd (addActivity fits now raw st))) = Some d3 \<and>
           activities d3 = activities (fst (getData now st)) \<and>
           (\<forall>date a. a \<noteq> nm \<longrightarrow> day_flag d3 date a = day_flag (fst (getData now st)) date a)"
proof -
  let ?data = "fst (getData now st)"
  from addActivity_success [OF a] obtain nm where
    nm: "validateActivityName raw = Some nm" "nm \<notin> set (activities ?data)"
        "d1 = ?data\<lparr>activities := activities ?data @ [nm]\<rparr>"
        "snd (addActivity fits now raw st) = saveData fits d1 (snd (getData now st))"
    by blast
  let ?in = "fst (getData now' (snd (addActivity fits now raw st)))"
  have in_cases: "?in = d1 \<or> ?in = ?data"
    by (simp add: nm(4) getData_saved)
  have del: "fst (deleteActivity True fits' now' nm (snd (addActivity fits now raw st))) =
               Some (deleted_from nm ?in)"
    by (simp add: deleteActivity_confirmed)
  have "activities d1 = activities ?data @ [nm]"
    by (subst nm(3)) simp
  with in_cases have "activities ?in = activities ?data @ [nm] \<or> activities ?in = activities ?data"
    by auto
  then have acts: "activities (deleted_from nm ?in) = activities ?data"
    using nm(2) by (auto simp: deleted_from_def filter_neq_id)
  have "dailyData d1 = dailyData ?data"
    by (subst nm(3)) simp
  with in_cases have "dailyData ?in = dailyData ?data" by auto
  then have "day_flag ?in = day_flag ?data"
    by (simp add: day_flag_def fun_eq_iff)
  then have flags: "\<forall>date a. a \<noteq> nm \<longrightarrow> day_flag (deleted_from nm ?in) date a = day_flag ?data date a"
    by (simp add: deleted_from_other_flag)
  from nm(1) del acts flags show ?thesis by blast
qed

lemma delete_confirmed_facts:
  "\<exists>d2. fst (deleteActivity True fits now name st) = Some d2 \<and>
        name \<notin> set (activities d2) \<and>
        activities d2 = filter (\<lambda>a. a \<noteq> name) (activities (fst (getData now st))) \<and>
        (\<forall>date r. dailyData d2 date = Some r \<longrightarrow> r name = None) \<and>
        (\<forall>date a. a \<noteq> name \<longrightarrow> day_flag d2 date a = day_flag (fst (getData now st)) date a) \<and>
        (name \<notin> set (activities (fst (getData now st))) \<longrightarrow>
           activities d2 = activities (fst (getData now st))) \<and>
        (name \<notin> set (activities (fst (getData now st))) \<and>
         (\<forall>date. day_flag (fst (getData now st)) date name = None) \<longrightarrow>
           d2 = fst (getData now st))"
proof -
  let ?data = "fst (getData now st)"
  have "fst (deleteActivity True fits now name st) = Some (deleted_from name ?data)"
    by (simp add: deleteActivity_confirmed)
  moreover have "name \<notin> set (activities (deleted_from name ?data))"
    by (rule deleted_from_activities)
  moreover have "activities (deleted_from name ?data) = filter (\<lambda>a. a \<noteq> name) (activities ?data)"
    by (simp add: deleted_from_def)
  moreover have "\<forall>date r. dailyData (deleted_from name ?data) date = Some r \<longrightarrow> r name = None"
    using deleted_from_no_key by blast
  moreover have "\<forall>date a. a \<noteq> name \<longrightarrow>
      day_flag (deleted_from name ?data) date a = day_flag ?data date a"
    using deleted_from_other_flag by blast
  moreover have "name \<notin> set (activities ?data) \<longrightarrow>
      activities (deleted_from name ?data) = activities ?data"
    using deleted_from_unknown_activities by blast
  moreover have "name \<notin> set (activities ?data) \<and> (\<forall>date. day_flag ?data date name = None) \<longrightarrow>
      deleted_from name ?data = ?data"
    using deleted_from_noop by blast
  ultimately show ?thesis by blast
qed

lemma validate_Gym: "validateActivityName ''Gym'' = Some ''Gym''"
  by (simp add: validateActivityName_def sanitizeInput_def trim_def is_white_space_def)


text \<open>
  C6, as the code has it. A declined dialog changes nothing. A confirmed \<open>deleteActivity\<close>
  never fails; the ledger it saves has \<open>name\<close> removed from \<open>activities\<close> (the other names
  keep their order), no day record with the key \<open>name\<close>, and every other entry of every
  day record as before. When \<open>name\<close> is not in \<open>activities\<close>, \<open>activities\<close> is unchanged,
  and the whole ledger is unchanged when no day record holds the key either. After a
  successful \<open>addActivity\<close>, a confirmed \<open>deleteActivity\<close> of the stored name gives a ledger
  with the original \<open>activities\<close> and the original entries for all other names.
\<close>

theorem C6_delete_activity:
  "deleteActivity False fits now name st = (None, st) \<and>
   (\<exists>d2. fst (deleteActivity True fits now name st) = Some d2 \<and>
      name \<notin> set (activities d2) \<and>
      activities d2 = filter (\<lambda>a. a \<noteq> name) (activities (fst (getData now st))) \<and>
      (\<forall>date r. dailyData d2 date = Some r \<longrightarrow> r name = None) \<and>
      (\<forall>date a. a \<noteq> name \<longrightarrow> day_flag d2 date a = day_flag (fst (getData now st)) date a) \<and>
      (name \<notin> set (activities (fst (getData now st))) \<longrightarrow>
         activities d2 = activities (fst (getData now st))) \<and>
      (name \<notin> set (activities (fst (getData now st))) \<and>
       (\<forall>date. day_flag (fst (getData now st)) date name = None) \<longrightarrow>
         d2 = fst (getData now st))) \<and>
   (\<forall>d1. fst (addActivity fits now raw st) = Inr d1 \<longrightarrow>
      (\<exists>nm d3. validateActivityName raw = Some nm \<and>
         fst (deleteActivity True fits' now' nm (snd (addActivity fits now raw st))) = Some d3 \<and>
         activities d3 = activities (fst (getData now st)) \<and>
         (\<forall>date a. a \<noteq> nm \<longrightarrow> day_flag d3 date a = day_flag (fst (getData now st)) date a)))"
  using deleteActivity_declined [of fits now name st] delete_confirmed_facts [of fits now name st]
    add_then_delete [of fits now raw st _ fits' now']
  by blast

text \<open>Two example ledgers: one with the activity Gym, one with an orphaned flag for Ghost.\<close>

definition ledger_gym :: ledger where
  "ledger_gym = (fst (initializeData 0))\<lparr>activities := [''Gym'']\<rparr>"

definition ledger_orphan :: ledger where
  "ledger_orphan = (fst (initializeData 0))\<lparr>dailyData := [0 \<mapsto> [''Ghost'' \<mapsto> True]]\<rparr>"

theorem C6_delete_activity_witness:
  "''Gym'' \<notin> set (activities (fst (getData 0 None))) \<and>
   day_flag (fst (getData 0 None)) 0 ''Gym'' = None \<and>
   fst (deleteActivity True unlimited 0 ''Gym'' None) = Some (fst (getData 0 None)) \<and>
   fst (addActivity unlimited 0 ''Gym'' None) = Inr ledger_gym \<and>
   validateActivityName ''Gym'' = Some ''Gym'' \<and>
   (\<exists>d3. fst (deleteActivity True unlimited 0 ''Gym''
             (snd (addActivity unlimited 0 ''Gym'' None))) = Some d3 \<and>
         activities d3 = activities (fst (getData 0 None)))"
proof -
  have a: "''Gym'' \<notin> set (activities (fst (getData 0 None)))"
    by (simp add: getData_def initializeData_def Let_def)
  have f: "\<forall>date. day_flag (fst (getData 0 None)) date ''Gym'' = None"
    by (simp add: day_flag_def getData_def initializeData_def Let_def)
  have g: "fst (addActivity unlimited 0 ''Gym'' None) = Inr ledger_gym"
    by (simp add: addActivity_def validate_Gym getData_def initializeData_def Let_def
        ledger_gym_def)
  show ?thesis
    using C6_delete_activity [of unlimited 0 "''Gym''" None "''Gym''" unlimited 0] a f g
    by (auto simp: validate_Gym)
qed

text \<open>
  C6 as the specification words it fails twice. With the dialog declined,
  \<^verbatim>\<open>Gym\<close> stays in \<open>activities\<close>. And deleting the name \<^verbatim>\<open>Ghost\<close>, which is not in
  \<open>activities\<close> but has an orphaned flag in a day record, is no no-op: the flag is removed.
\<close>

theorem C6_delete_counterexample:
  "''Gym'' \<in> set (activities ledger_gym) \<and>
   deleteActivity False unlimited 0 ''Gym'' (Some ledger_gym) = (None, Some ledger_gym) \<and>
   ''Ghost'' \<notin> set (activities ledger_orphan) \<and>
   day_flag ledger_orphan 0 ''Ghost'' = Some True \<and>
   fst (deleteActivity True unlimited 0 ''Ghost'' (Some ledger_orphan)) \<noteq> Some ledger_orphan \<and>
   snd (deleteActivity True unlimited 0 ''Ghost'' (Some ledger_orphan)) \<noteq> Some ledger_orphan"
proof -
  let ?d2 = "deleted_from ''Ghost'' ledger_orphan"
  have 1: "deleteActivity True unlimited 0 ''Ghost'' (Some ledger_orphan) = (Some ?d2, Some ?d2)"
    by (simp add: deleteActivity_confirmed getData_def saveData_def unlimited_def)
  have 2: "day_flag ?d2 0 ''Ghost'' = None"
    by (rule deleted_from_flag)
  have 3: "day_flag ledger_orphan 0 ''Ghost'' = Some True"
    by (simp add: day_flag_def ledger_orphan_def)
  from 2 3 have 4: "?d2 \<noteq> ledger_orphan" by auto
  have 5: "''Ghost'' \<notin> set (activities ledger_orphan)"
    by (simp add: ledger_orphan_def initializeData_def Let_def)
  have 6: "''Gym'' \<in> set (activities ledger_gym)"
    by (simp add: ledger_gym_def)
  from 1 3 4 5 6 show ?thesis
    by (simp add: deleteActivity_declined)
qed

subsection \<open>Adding an activity\<close>

lemma sanitizeInput_id: "sanitizeInput input = input"
  by (simp add: sanitizeInput_def)

lemma validateActivityName_cases:
  "validateActivityName raw =
     (if trim (sanitizeInput raw) = [] \<or> length (trim (sanitizeInput raw)) > 100 then None
      else Some (trim (sanitizeInput raw)))"
  by (auto simp: validateActivityName_def sanitizeInput_def trim_def Let_def)

lemma getData_nonempty:
  "activities (fst (getData now st)) \<noteq> [] \<Longrightarrow> snd (getData now st) = st"
  by (cases st) (simp_all add: getData_def initializeData_def Let_def)

lemma addActivity_invalid:
  assumes "trim (sanitizeInput raw) = [] \<or> length (trim (sanitizeInput raw)) > 100"
  shows "addActivity fits now raw st = (Inl InvalidName, st)"
  using assms by (simp add: addActivity_def validateActivityName_cases)

lemma addActivity_duplicate:
  assumes v: "trim (sanitizeInput raw) \<noteq> []" "length (trim (sanitizeInput raw)) \<le> 100"
    and d: "trim (sanitizeInput raw) \<in> set (activities (fst (getData now st)))"
  shows "addActivity fits now raw st = (Inl DuplicateName, st)"
proof -
  obtain data st1 where g: "getData now st = (data, st1)" by force
  from d have "activities (fst (getData now st)) \<noteq> []" by auto
  then have "snd (getData now st) = st" by (rule getData_nonempty)
  with g have "st1 = st" by simp
  with v d g show ?thesis
    by (simp add: addActivity_def validateActivityName_cases)
qed

lemma addActivity_limit:
  assumes v: "trim (sanitizeInput raw) \<noteq> []" "length (trim (sanitizeInput raw)) \<le> 100"
    and d: "trim (sanitizeInput raw) \<notin> set (activities (fst (getData now st)))"
    and l: "length (activities (fst (getData now st))) \<ge> 50"
  shows "addActivity fits now raw st = (Inl LimitExceeded, st)"
proof -
  obtain data st1 where g: "getData now st = (data, st1)" by force
  from l have "activities (fst (getData now st)) \<noteq> []" by auto
  then have "snd (getData now st) = st" by (rule getData_nonempty)
  with g have "st1 = st" by simp
  with v d l g show ?thesis
    by (simp add: addActivity_def validateActivityName_cases)
qed

lemma addActivity_appends:
  assumes v: "trim (sanitizeInput raw) \<noteq> []" "length (trim (sanitizeInput raw)) \<le> 100"
    and d: "trim (sanitizeInput raw) \<notin> set (activities (fst (getData now st)))"
    and l: "length (activities (fst (getData now st))) < 50"
  shows "addActivity fits now raw st =
           (Inr ((fst (getData now st))
                   \<lparr>activities := activities (fst (getData now st)) @ [trim (sanitizeInput raw)]\<rparr>),
            saveData fits
              ((fst (getData now st))
                 \<lparr>activities := activities (fst (getData now st)) @ [trim (sanitizeInput raw)]\<rparr>)
              (snd (getData now st)))"
proof -
  obtain data st1 where g: "getData now st = (data, st1)" by force
  with v d l show ?thesis
    by (simp add: addActivity_def validateActivityName_cases Let_def)
qed

lemma addActivity_failure_keeps_storage:
  assumes "fst (addActivity fits now raw st) = Inl e"
  shows "snd (addActivity fits now raw st) = st"
proof (cases "trim (sanitizeInput raw) = [] \<or> length (trim (sanitizeInput raw)) > 100")
  case True
  then show ?thesis by (simp add: addActivity_invalid)
next
  case False
  then have v: "trim (sanitizeInput raw) \<noteq> []" "length (trim (sanitizeInput raw)) \<le> 100"
    by simp_all
  show ?thesis
  proof (cases "trim (sanitizeInput raw) \<in> set (activities (fst (getData now st)))")
    case True
    with v show ?thesis by (simp add: addActivity_duplicate)
  next
    case nd: False
    show ?thesis
    proof (cases "length (activities (fst (getData now st))) \<ge> 50")
      case True
      with v nd show ?thesis by (simp add: addActivity_limit)
    next
      case False
      then have "length (activities (fst (getData now st))) < 50" by simp
      from addActivity_appends [OF v nd this, of fits] assms show ?thesis by simp
    qed
  qed
qed

text \<open>
  C4, as the code has it. The sanitized name is the trimmed input: \<open>sanitizeInput\<close> returns
  its argument unchanged. The checks run in this order. \<open>addActivity\<close> shows the
  \<open>InvalidName\<close> alert when the sanitized name is empty or longer than 100 characters;
  otherwise the \<open>DuplicateName\<close> alert when the sanitized name is already in \<open>activities\<close>
  (exact match); otherwise the \<open>LimitExceeded\<close> alert when \<open>activities\<close> has 50 or more
  entries. After an alert the storage is as before. Otherwise the name is appended at the
  end of \<open>activities\<close> and the ledger is handed to \<open>saveData\<close>.
\<close>

theorem C4_add_activity:
  "sanitizeInput raw = raw \<and>
   (trim (sanitizeInput raw) = [] \<or> length (trim (sanitizeInput raw)) > 100 \<longrightarrow>
      addActivity fits now raw st = (Inl InvalidName, st)) \<and>
   (trim (sanitizeInput raw) \<noteq> [] \<and> length (trim (sanitizeInput raw)) \<le> 100 \<and>
    trim (sanitizeInput raw) \<in> set (activities (fst (getData now st))) \<longrightarrow>
      addActivity fits now raw st = (Inl DuplicateName, st)) \<and>
   (trim (sanitizeInput raw) \<noteq> [] \<and> length (trim (sanitizeInput raw)) \<le> 100 \<and>
    trim (sanitizeInput raw) \<notin> set (activities (fst (getData now st))) \<and>
    length (activities (fst (getData now st))) \<ge> 50 \<longrightarrow>
      addActivity fits now raw st = (Inl LimitExceeded, st)) \<and>
   (trim (sanitizeInput raw) \<noteq> [] \<and> length (trim (sanitizeInput raw)) \<le> 100 \<and>
    trim (sanitizeInput raw) \<notin> set (activities (fst (getData now st))) \<and>
    length (activities (fst (getData now st))) < 50 \<longrightarrow>
      addActivity fits now raw st =
        (Inr ((fst (getData now st))
                \<lparr>activities := activities (fst (getData now st)) @ [trim (sanitizeInput raw)]\<rparr>),
         saveData fits
           ((fst (getData now st))
              \<lparr>activities := activities (fst (getData now st)) @ [trim (sanitizeInput raw)]\<rparr>)
           (snd (getData now st)))) \<and>
   (\<forall>e. fst (addActivity fits now raw st) = Inl e \<longrightarrow> snd (addActivity fits now raw st) = st)"
  using sanitizeInput_id [of raw] addActivity_invalid [of raw fits now st]
    addActivity_duplicate [of raw now st fits] addActivity_limit [of raw now st fits]
    addActivity_appends [of raw now st fits] addActivity_failure_keeps_storage [of fits now raw st]
  by blast

text \<open>Ledgers with 50 activities: fifty names made of the letter a, and 49 of them after Gym.\<close>

definition ledger_full :: ledger where
  "ledger_full =
     (fst (initializeData 0))\<lparr>activities := map (\<lambda>n. replicate n CHR ''a'') [1..<51]\<rparr>"

definition ledger_full_gym :: ledger where
  "ledger_full_gym =
     (fst (initializeData 0))\<lparr>activities := ''Gym'' # map (\<lambda>n. replicate n CHR ''a'') [1..<50]\<rparr>"

lemma trim_examples:
  "trim ''  '' = []" "trim ''Gym'' = ''Gym''" "trim '' Gym '' = ''Gym''" "trim ''X'' = ''X''"
  "trim [] = []"
  by (simp_all add: trim_def is_white_space_def)

lemma X_not_replicate: "''X'' \<noteq> replicate n CHR ''a''"
  by (cases n) simp_all

lemma ledger_full_facts:
  "length (activities ledger_full) = 50" "''X'' \<notin> set (activities ledger_full)"
  "length (activities ledger_full_gym) = 50" "''Gym'' \<in> set (activities ledger_full_gym)"
  by (auto simp: ledger_full_def ledger_full_gym_def X_not_replicate)

theorem C4_add_activity_witness:
  "addActivity unlimited 0 ''  '' None = (Inl InvalidName, None) \<and>
   ''Gym'' \<in> set (activities ledger_gym) \<and>
   addActivity unlimited 0 ''Gym'' (Some ledger_gym) = (Inl DuplicateName, Some ledger_gym) \<and>
   length (activities ledger_full) = 50 \<and> ''X'' \<notin> set (activities ledger_full) \<and>
   addActivity unlimited 0 ''X'' (Some ledger_full) = (Inl LimitExceeded, Some ledger_full) \<and>
   addActivity unlimited 0 '' Gym '' None = (Inr ledger_gym, Some ledger_gym)"
  using C4_add_activity [of "''  ''" unlimited 0 None]
    C4_add_activity [of "''Gym''" unlimited 0 "Some ledger_gym"]
    C4_add_activity [of "''X''" unlimited 0 "Some ledger_full"]
    C4_add_activity [of "'' Gym ''" unlimited 0 None]
    ledger_full_facts
  by (simp add: sanitizeInput_id trim_examples getData_def initializeData_def Let_def
      ledger_gym_def saveData_def unlimited_def)

text \<open>
  The escaping the specification names for the sanitizer, following its words (the
  characters \<^verbatim>\<open>&\<close>, \<^verbatim>\<open><\<close>, \<^verbatim>\<open>>\<close> and the two quotes become entities); the code has no
  such step.
\<close>

definition spec_html_escape_char :: "char \<Rightarrow> string" where
  "spec_html_escape_char c =
     (if c = CHR ''&'' then ''&amp;''
      else if c = CHR ''<'' then ''&lt;''
      else if c = CHR ''>'' then ''&gt;''
      else if c = CHR 0x22 then ''&quot;''
      else if c = CHR 0x27 then ''&#39;''
      else [c])"

definition spec_html_escape :: "string \<Rightarrow> string" where
  "spec_html_escape s = concat (map spec_html_escape_char s)"

text \<open>
  C4 as the specification words it fails in two ways. A name of thirty \<^verbatim>\<open><\<close> is
  longer than 100 characters once HTML-escaped, yet it is accepted and stored as it is.
  And with 50 activities, the answer is not always \<open>LimitExceeded\<close>: an empty name gets
  \<open>InvalidName\<close> and a name already present gets \<open>DuplicateName\<close>.
\<close>

theorem C4_add_activity_counterexample:
  "100 < length (trim (spec_html_escape ''<<<<<<<<<<<<<<<<<<<<<<<<<<<<<<'')) \<and>
   fst (addActivity unlimited 0 ''<<<<<<<<<<<<<<<<<<<<<<<<<<<<<<'' None) =
     Inr ((fst (initializeData 0))\<lparr>activities := [''<<<<<<<<<<<<<<<<<<<<<<<<<<<<<<'']\<rparr>) \<and>
   length (activities ledger_full_gym) = 50 \<and>
   fst (addActivity unlimited 0 ''Gym'' (Some ledger_full_gym)) = Inl DuplicateName \<and>
   fst (addActivity unlimited 0 ''  '' (Some ledger_full_gym)) = Inl InvalidName"
proof -
  have 1: "100 < length (trim (spec_html_escape ''<<<<<<<<<<<<<<<<<<<<<<<<<<<<<<''))"
    by (simp add: spec_html_escape_def spec_html_escape_char_def trim_def is_white_space_def)
  have t: "trim ''<<<<<<<<<<<<<<<<<<<<<<<<<<<<<<'' = ''<<<<<<<<<<<<<<<<<<<<<<<<<<<<<<''"
    by (simp add: trim_def is_white_space_def)
  have 2: "fst (addActivity unlimited 0 ''<<<<<<<<<<<<<<<<<<<<<<<<<<<<<<'' None) =
     Inr ((fst (initializeData 0))\<lparr>activities := [''<<<<<<<<<<<<<<<<<<<<<<<<<<<<<<'']\<rparr>)"
    by (simp add: addActivity_def validateActivityName_cases sanitizeInput_id t getData_def
        initializeData_def Let_def)
  have 3: "fst (addActivity unlimited 0 ''Gym'' (Some ledger_full_gym)) = Inl DuplicateName"
    using ledger_full_facts(4)
    by (simp add: addActivity_duplicate sanitizeInput_id trim_examples getData_def)
  have 4: "fst (addActivity unlimited 0 ''  '' (Some ledger_full_gym)) = Inl InvalidName"
    by (simp add: addActivity_invalid sanitizeInput_id trim_examples)
  from 1 2 3 4 ledger_full_facts(3) show ?thesis by simp
qed

subsection \<open>The app-open log\<close>

text \<open>
  The stored ledgers that the script can reach from an empty store, by any of its
  operations, at any clock reading, in any zone, whether or not a write goes through.
\<close>

inductive reachable :: "storage \<Rightarrow> bool" where
  start: "reachable None"
| reset: "reachable st \<Longrightarrow> reachable (checkDailyReset fits now st)"
| track: "reachable st \<Longrightarrow> reachable (trackAppOpen fits tz now st)"
| add: "reachable st \<Longrightarrow> reachable (snd (addActivity fits now name st))"
| delete: "reachable st \<Longrightarrow> reachable (snd (deleteActivity confirmed fits now name st))"
| toggle: "reachable st \<Longrightarrow> reachable (snd (toggleActivity fits now name st))"
| theme: "reachable st \<Longrightarrow> reachable (snd (toggleTheme fits now st))"
| stats: "reachable st \<Longrightarrow> reachable (snd (calculateSuccessPercentage now dateRange st))"

text \<open>\<open>opens_distinct st\<close>: the app-open log of the stored ledger has no date twice.\<close>

definition opens_distinct :: "storage \<Rightarrow> bool" where
  "opens_distinct st = (case st of None \<Rightarrow> True | Some d \<Rightarrow> distinct (appOpens d))"

lemma getData_distinct:
  assumes "opens_distinct st"
  shows "distinct (appOpens (fst (getData now st)))" and "opens_distinct (snd (getData now st))"
  using assms
  by (cases st; simp add: opens_distinct_def getData_def initializeData_def Let_def)+

lemma saveData_distinct:
  "distinct (appOpens d) \<Longrightarrow> opens_distinct st \<Longrightarrow> opens_distinct (saveData fits d st)"
  by (simp add: saveData_def opens_distinct_def)

lemma checkDailyReset_distinct:
  assumes "opens_distinct st" shows "opens_distinct (checkDailyReset fits now st)"
proof -
  obtain data st1 where g: "getData now st = (data, st1)" by force
  from getData_distinct [OF assms, of now] g
  have "distinct (appOpens data)" "opens_distinct st1" by simp_all
  then show ?thesis
    by (simp add: checkDailyReset_def g Let_def saveData_distinct)
qed

lemma trackAppOpen_distinct:
  assumes "opens_distinct st" shows "opens_distinct (trackAppOpen fits tz now st)"
proof -
  obtain data st1 where g: "getData now st = (data, st1)" by force
  from getData_distinct [OF assms, of now] g
  have d: "distinct (appOpens data)" "opens_distinct st1" by simp_all
  show ?thesis
  proof (cases "getTodayDate now \<in> set (appOpens data)")
    case True
    with d show ?thesis by (simp add: trackAppOpen_def g Let_def)
  next
    case False
    with d have "distinct (appOpens (updateStreak tz now
        (data\<lparr>appOpens := appOpens data @ [getTodayDate now]\<rparr>)))"
      by (simp add: appOpens_updateStreak)
    with False d show ?thesis
      by (simp add: trackAppOpen_def g Let_def saveData_distinct)
  qed
qed

lemma addActivity_distinct:
  assumes "opens_distinct st" shows "opens_distinct (snd (addActivity fits now name st))"
proof -
  obtain data st1 where g: "getData now st = (data, st1)" by force
  from getData_distinct [OF assms, of now] g
  have d: "distinct (appOpens data)" "opens_distinct st1" by simp_all
  with assms show ?thesis
    by (simp add: addActivity_def g Let_def saveData_distinct split: option.splits)
qed

lemma deleteActivity_distinct:
  assumes "opens_distinct st"
  shows "opens_distinct (snd (deleteActivity confirmed fits now name st))"
proof -
  obtain data st1 where g: "getData now st = (data, st1)" by force
  from getData_distinct [OF assms, of now] g
  have d: "distinct (appOpens data)" "opens_distinct st1" by simp_all
  with assms show ?thesis
    by (simp add: deleteActivity_def g Let_def saveData_distinct)
qed

lemma toggleActivity_distinct:
  assumes "opens_distinct st"
  shows "opens_distinct (snd (toggleActivity fits now name st))"
proof -
  obtain data st1 where g: "getData now st = (data, st1)" by force
  from getData_distinct [OF assms, of now] g
  have d: "distinct (appOpens data)" "opens_distinct st1" by simp_all
  then show ?thesis
    by (simp add: toggleActivity_def g Let_def saveData_distinct)
qed

lemma toggleTheme_distinct:
  assumes "opens_distinct st"
  shows "opens_distinct (snd (toggleTheme fits now st))"
proof -
  obtain data st1 where g: "getData now st = (data, st1)" by force
  from getData_distinct [OF assms, of now] g
  have d: "distinct (appOpens data)" "opens_distinct st1" by simp_all
  then show ?thesis
    by (simp add: toggleTheme_def g Let_def saveData_distinct)
qed

lemma stats_distinct:
  assumes "opens_distinct st"
  shows "opens_distinct (snd (calculateSuccessPercentage now dateRange st))"
proof -
  obtain data st1 where g: "getData now st = (data, st1)" by force
  from getData_distinct [OF assms, of now] g
  have d: "opens_distinct st1" by simp
  then show ?thesis
    by (simp add: calculateSuccessPercentage_def g Let_def split: prod.splits)
qed

lemma reachable_distinct: "reachable st \<Longrightarrow> opens_distinct st"
proof (induction rule: reachable.induct)
  case start
  show ?case by (simp add: opens_distinct_def)
qed (simp_all add: checkDailyReset_distinct trackAppOpen_distinct addActivity_distinct
      deleteActivity_distinct toggleActivity_distinct toggleTheme_distinct stats_distinct)

lemma trackAppOpen_present:
  assumes "st = Some d" and "getTodayDate now \<in> set (appOpens d)"
  shows "trackAppOpen fits tz now st = st"
  using assms by (simp add: trackAppOpen_def getData_def)


text \<open>
  C9. In every reachable stored ledger the app-open log has no duplicate date key.
  Recording an app open on a date that is already in the log leaves the stored ledger as
  it is (the log and the cached streaks with it), and after \<open>trackAppOpen\<close> the log is
  again free of duplicates.
\<close>

theorem C9_app_opens_distinct:
  "reachable st \<longrightarrow>
     (\<forall>d. st = Some d \<longrightarrow>
        distinct (appOpens d) \<and>
        (getTodayDate now \<in> set (appOpens d) \<longrightarrow> trackAppOpen fits tz now st = st)) \<and>
     opens_distinct (trackAppOpen fits tz now st)"
proof
  assume r: "reachable st"
  then have o: "opens_distinct st" by (rule reachable_distinct)
  then have "\<forall>d. st = Some d \<longrightarrow> distinct (appOpens d)"
    by (auto simp: opens_distinct_def)
  moreover have "\<forall>d. st = Some d \<longrightarrow> getTodayDate now \<in> set (appOpens d) \<longrightarrow>
      trackAppOpen fits tz now st = st"
    using trackAppOpen_present by blast
  moreover have "opens_distinct (trackAppOpen fits tz now st)"
    using o by (rule trackAppOpen_distinct)
  ultimately show "(\<forall>d. st = Some d \<longrightarrow>
        distinct (appOpens d) \<and>
        (getTodayDate now \<in> set (appOpens d) \<longrightarrow> trackAppOpen fits tz now st = st)) \<and>
     opens_distinct (trackAppOpen fits tz now st)"
    by blast
qed

theorem C9_app_opens_distinct_witness:
  "reachable (trackAppOpen unlimited (fixed_zone 0) (Date_of_key 5) None) \<and>
   map_option appOpens (trackAppOpen unlimited (fixed_zone 0) (Date_of_key 5) None) = Some [5] \<and>
   trackAppOpen unlimited (fixed_zone 0) (Date_of_key 5) (trackAppOpen unlimited (fixed_zone 0) (Date_of_key 5) None) =
     trackAppOpen unlimited (fixed_zone 0) (Date_of_key 5) None"
proof -
  let ?st = "trackAppOpen unlimited (fixed_zone 0) (Date_of_key 5) None"
  have r: "reachable ?st"
    by (rule reachable.track [OF reachable.start])
  have a: "map_option appOpens ?st = Some [5]"
    by (simp add: trackAppOpen_def getData_def initializeData_def Let_def saveData_def
        unlimited_def appOpens_updateStreak getTodayDate_of_key)
  then obtain d where d: "?st = Some d" "appOpens d = [5]" by auto
  then have "getTodayDate (Date_of_key 5) \<in> set (appOpens d)"
    by (simp add: getTodayDate_of_key)
  with C9_app_opens_distinct [of ?st "Date_of_key 5" unlimited "fixed_zone 0"] r d(1)
  have "trackAppOpen unlimited (fixed_zone 0) (Date_of_key 5) ?st = ?st" by blast
  with r a show ?thesis by simp
qed

subsection \<open>The success statistics\<close>

text \<open>
  The quantities the specification names, for a ledger and a date. \<open>has_key\<close>: at least
  one activity of the ledger has a key in the record of the date. \<open>all_done\<close>: the record
  marks every activity as true. \<open>day_percentage\<close>: the share of the activities marked
  true, in percent. \<open>contributing\<close>: the dates of the range that have a key, in order and
  as often as the range lists them. \<open>mean_percentage\<close>: the arithmetic mean of the day
  percentages over the contributing dates.
\<close>

definition has_key :: "ledger \<Rightarrow> datekey \<Rightarrow> bool" where
  "has_key data date = (\<exists>a \<in> set (activities data). day_flag data date a \<noteq> None)"

definition all_done :: "ledger \<Rightarrow> datekey \<Rightarrow> bool" where
  "all_done data date = (\<forall>a \<in> set (activities data). day_flag data date a = Some True)"

definition done_count :: "ledger \<Rightarrow> datekey \<Rightarrow> nat" where
  "done_count data date =
     length (filter (\<lambda>a. day_flag data date a = Some True) (activities data))"

definition day_percentage :: "ledger \<Rightarrow> datekey \<Rightarrow> rat" where
  "day_percentage data date =
     of_nat (done_count data date) / of_nat (length (activities data)) * 100"

definition contributing :: "ledger \<Rightarrow> datekey list \<Rightarrow> datekey list" where
  "contributing data dateRange = filter (has_key data) dateRange"

definition mean_percentage :: "ledger \<Rightarrow> datekey list \<Rightarrow> rat" where
  "mean_percentage data dateRange =
     sum_list (map (day_percentage data) (contributing data dateRange)) /
       of_nat (length (contributing data dateRange))"

text \<open>
  \<open>has_data\<close> is the flag \<^verbatim>\<open>hasData\<close> that the code computes for a date: some activity
  reads as something other than \<^verbatim>\<open>undefined\<close> in the record of the date, or in \<^verbatim>\<open>{}\<close> when
  the date has no record.
\<close>

definition has_data :: "ledger \<Rightarrow> datekey \<Rightarrow> bool" where
  "has_data data date =
     (\<exists>a \<in> set (activities data).
        object_get (case dailyData data date of None \<Rightarrow> Map.empty | Some r \<Rightarrow> r) a \<noteq> Undefined)"

lemma day_record_flag:
  "(case dailyData data date of None \<Rightarrow> Map.empty | Some r \<Rightarrow> r) a = day_flag data date a"
  by (simp add: day_flag_def split: option.splits)

lemma object_get_true: "object_get r a = Boolean True \<longleftrightarrow> r a = Some True"
  by (simp add: object_get_def split: option.splits)

lemma object_get_defined:
  "object_get r a \<noteq> Undefined \<longleftrightarrow> r a \<noteq> None \<or> a \<in> set Object_prototype"
  by (simp add: object_get_def split: option.splits)

lemma day_scan_fold:
  "fold (activity_step dayData) acts (c, h) =
   (c + length (filter (\<lambda>a. dayData a = Some True) acts),
    h \<or> (\<exists>a \<in> set acts. object_get dayData a \<noteq> Undefined))"
  by (induction acts arbitrary: c h) (auto simp: activity_step_def object_get_true)

lemma day_scan_eq:
  "day_scan (case dailyData data date of None \<Rightarrow> Map.empty | Some r \<Rightarrow> r) (activities data) =
     (done_count data date, has_data data date)"
  unfolding day_scan_def day_scan_fold
  by (simp add: done_count_def has_data_def day_record_flag)

text \<open>
  A date has data when it has a key of some activity, and also, whatever its record
  holds, when some activity is named like a member of \<^verbatim>\<open>Object.prototype\<close>.
\<close>

lemma has_data_iff:
  "has_data data date \<longleftrightarrow>
     has_key data date \<or> (\<exists>a \<in> set (activities data). a \<in> set Object_prototype)"
  by (auto simp: has_data_def has_key_def object_get_defined day_record_flag)

lemma has_data_plain:
  "set (activities data) \<inter> set Object_prototype = {} \<Longrightarrow> has_data data date = has_key data date"
  by (auto simp: has_data_iff)

lemma date_step_no_data:
  "\<not> has_data data date \<Longrightarrow> date_step data date (n, c, t) = (n, c, t)"
  by (simp add: date_step_def day_scan_eq Let_def)

lemma range_scan_no_data:
  "\<forall>date \<in> set dateRange. \<not> has_data data date \<Longrightarrow>
   range_scan data dateRange (n, c, t) = (n, c, t)"
  by (induction dateRange) (simp_all add: range_scan_def date_step_no_data)

text \<open>
  With no activity, an empty range, or no date that has data, the result is 0 and 0.
\<close>

lemma success_nothing:
  assumes "dateRange = [] \<or> activities (fst (getData now st)) = [] \<or>
           (\<forall>date \<in> set dateRange. \<not> has_data (fst (getData now st)) date)"
  shows "fst (calculateSuccessPercentage now dateRange st) = \<lparr>completedDays = 0, overall = 0\<rparr>"
proof -
  obtain data st1 where g: "getData now st = (data, st1)" by force
  show ?thesis
  proof (cases "dateRange = [] \<or> activities data = []")
    case True
    then show ?thesis by (auto simp: calculateSuccessPercentage_def g)
  next
    case False
    with assms g have "\<forall>date \<in> set dateRange. \<not> has_data data date" by simp
    then have "range_scan data dateRange (0, 0, 0) = (0, 0, 0)"
      by (rule range_scan_no_data)
    then show ?thesis by (simp add: calculateSuccessPercentage_def g)
  qed
qed

text \<open>
  The rounding error of a double is at most half the spacing of the doubles around it:
  at most \<open>\<bar>x\<bar> / 2 ^ 53\<close> in the normal range and \<open>2 ^ (- 1075)\<close> below it, so at most
  \<open>(\<bar>x\<bar> + 1) / 2 ^ 53\<close> everywhere.
\<close>

lemma pow2_powi: "pow2 e = 2 powi e"
  by (simp add: pow2_def power_int_def field_simps)

lemma pow2_pos: "0 < pow2 e"
  by (simp add: pow2_powi)

lemma pow2_add: "pow2 (a + b) = pow2 a * pow2 b"
  by (simp add: pow2_powi power_int_add)

lemma round_half_even_error: "\<bar>of_int (round_half_even q) - q\<bar> \<le> 1 / 2"
proof -
  define n where "n = \<lfloor>q\<rfloor>"
  have b: "of_int n \<le> q" "q < of_int n + 1"
    unfolding n_def by linarith+
  show ?thesis
    unfolding round_half_even_def Let_def n_def [symmetric]
    using b by (auto simp: abs_le_iff)
qed

lemma exponent_lower:
  assumes "x \<noteq> 0"
  shows "pow2 (exponent x) \<le> \<bar>x\<bar>"
proof -
  obtain p q where pq: "quotient_of \<bar>x\<bar> = (p, q)" by force
  then have q: "0 < q" by (rule quotient_of_denom_pos)
  from pq have x: "\<bar>x\<bar> = of_int p / of_int q" by (rule quotient_of_div)
  from assms have "0 < \<bar>x\<bar>" by simp
  with x q have p: "0 < p" by (simp add: zero_less_divide_iff)
  let ?e = "bitlen p - bitlen q"
  have "pow2 (?e - 1) \<le> \<bar>x\<bar>"
  proof -
    have bp: "(2::int) ^ nat (bitlen p - 1) \<le> p" using bitlen_bounds [OF p] by simp
    have bq: "q < (2::int) ^ nat (bitlen q)" using bitlen_bounds [OF q] by simp
    have bp1: "1 \<le> bitlen p" using p by (simp add: bitlen_alt_def)
    have bq0: "0 \<le> bitlen q" by (rule bitlen_nonneg)
    have "(2::rat) powi (bitlen p - 1) \<le> of_int p"
    proof -
      have "(2::rat) powi (bitlen p - 1) = of_int (2 ^ nat (bitlen p - 1))"
        using bp1 by (simp add: power_int_def)
      also have "\<dots> \<le> of_int p" using bp by (simp only: of_int_le_iff)
      finally show ?thesis .
    qed
    moreover have "of_int q \<le> (2::rat) powi (bitlen q)"
    proof -
      have "(of_int q :: rat) \<le> of_int (2 ^ nat (bitlen q))" using bq by (simp only: of_int_le_iff)
      also have "\<dots> = (2::rat) powi (bitlen q)" using bq0 by (simp add: power_int_def)
      finally show ?thesis .
    qed
    moreover have "(2::rat) powi (?e - 1) = 2 powi (bitlen p - 1) / 2 powi (bitlen q)"
      by (simp add: power_int_diff)
    ultimately have "(2::rat) powi (?e - 1) \<le> of_int p / of_int q"
      using q p by (simp add: frac_le)
    then show ?thesis by (simp add: pow2_powi x)
  qed
  then show ?thesis
    by (simp add: exponent_def pq Let_def)
qed

lemma double_error: "\<bar>double x - x\<bar> \<le> (\<bar>x\<bar> + 1) / 2 ^ 53"
proof (cases "x = 0")
  case True
  then show ?thesis by (simp add: double_def)
next
  case False
  define e where "e = max (exponent x) (- 1022)"
  define ulp where "ulp = pow2 (e - 52)"
  have up: "0 < ulp" by (simp add: ulp_def pow2_pos)
  have d: "double x = of_int (round_half_even (x / ulp)) * ulp"
    using False by (simp add: double_def e_def ulp_def Let_def)
  have "\<bar>double x - x\<bar> = \<bar>of_int (round_half_even (x / ulp)) - x / ulp\<bar> * ulp"
  proof -
    have "double x - x = (of_int (round_half_even (x / ulp)) - x / ulp) * ulp"
      using up by (simp add: d field_simps)
    then show ?thesis using up by (simp add: abs_mult)
  qed
  also have "\<dots> \<le> 1 / 2 * ulp"
    using round_half_even_error [of "x / ulp"] up by (simp add: mult_right_mono)
  also have "\<dots> = pow2 e / 2 ^ 53"
  proof -
    have "pow2 e = pow2 (e - 52) * pow2 52" by (simp add: pow2_add [symmetric])
    then show ?thesis by (simp add: ulp_def pow2_def)
  qed
  also have "\<dots> \<le> (\<bar>x\<bar> + 1) / 2 ^ 53"
  proof -
    have "pow2 e \<le> \<bar>x\<bar> + 1"
    proof (cases "exponent x \<le> - 1022")
      case True
      then have "e = - 1022" by (simp add: e_def)
      then have "pow2 e \<le> 1" by (simp add: pow2_def)
      then show ?thesis by simp
    next
      case False
      then have "e = exponent x" by (simp add: e_def)
      with exponent_lower [OF \<open>x \<noteq> 0\<close>] show ?thesis by simp
    qed
    then show ?thesis by (simp add: divide_right_mono)
  qed
  finally show ?thesis .
qed


text \<open>The unit roundoff of binary64.\<close>

definition roundoff :: rat where
  "roundoff = 1 / 2 ^ 53"

lemma roundoff_bounds: "0 < roundoff" "roundoff \<le> 1 / 1000000"
  by (simp_all add: roundoff_def)

lemma double_roundoff: "\<bar>double x - x\<bar> \<le> (\<bar>x\<bar> + 1) * roundoff"
  using double_error [of x] by (simp add: roundoff_def)

lemma double_roundoff_le:
  assumes "\<bar>x\<bar> + 1 \<le> c"
  shows "\<bar>double x - x\<bar> \<le> c * roundoff"
proof -
  have "(\<bar>x\<bar> + 1) * roundoff \<le> c * roundoff"
    using assms roundoff_bounds(1) by (simp add: mult_right_mono)
  with double_roundoff [of x] show ?thesis by linarith
qed

lemma double_exact: "double 0 = 0" "double 1 = 1" "double 100 = 100"
  by code_simp+

text \<open>
  \<open>code_percentage\<close> is the \<^verbatim>\<open>dayPercentage\<close> that the code computes, with its two roundings.
  It is within 302 units of roundoff of the exact percentage, and it is the double 100
  exactly when every activity is done.
\<close>

definition code_percentage :: "ledger \<Rightarrow> datekey \<Rightarrow> rat" where
  "code_percentage data date =
     double (double (of_nat (done_count data date) / of_nat (length (activities data))) * 100)"

lemma done_count_le: "done_count data date \<le> length (activities data)"
  by (simp add: done_count_def)

lemma day_percentage_bounds:
  assumes "activities data \<noteq> []"
  shows "0 \<le> day_percentage data date" and "day_percentage data date \<le> 100"
proof -
  from assms have n: "0 < length (activities data)" by simp
  show "0 \<le> day_percentage data date" by (simp add: day_percentage_def)
  have "(of_nat (done_count data date) :: rat) \<le> of_nat (length (activities data))"
    using done_count_le [of data date] by (simp only: of_nat_le_iff)
  then show "day_percentage data date \<le> 100"
    using n by (simp add: day_percentage_def field_simps)
qed

lemma percentage_error:
  assumes "activities data \<noteq> []"
  shows "\<bar>code_percentage data date - day_percentage data date\<bar> \<le> 302 * roundoff"
proof -
  define x :: rat where
    "x = of_nat (done_count data date) / of_nat (length (activities data))"
  have p: "day_percentage data date = x * 100"
    by (simp add: day_percentage_def x_def)
  have x: "0 \<le> x" "x \<le> 1"
    using day_percentage_bounds [OF assms, of date] by (simp_all add: p)
  define a where "a = double x"
  have a: "\<bar>a - x\<bar> \<le> 2 * roundoff"
    unfolding a_def using x by (intro double_roundoff_le) simp
  then have a1: "\<bar>a\<bar> \<le> 101 / 100" using x roundoff_bounds by linarith
  have b: "\<bar>double (a * 100) - a * 100\<bar> \<le> 102 * roundoff"
    using a1 by (intro double_roundoff_le) (simp add: abs_mult)
  have "code_percentage data date = double (a * 100)"
    by (simp add: code_percentage_def a_def x_def)
  with a b show ?thesis unfolding p by linarith
qed

lemma percentage_100:
  assumes n: "activities data \<noteq> []" and small: "length (activities data) < 2 ^ 44"
  shows "code_percentage data date = 100 \<longleftrightarrow> done_count data date = length (activities data)"
proof
  assume "done_count data date = length (activities data)"
  with n show "code_percentage data date = 100"
    by (simp add: code_percentage_def double_exact)
next
  assume c: "code_percentage data date = 100"
  show "done_count data date = length (activities data)"
  proof (rule ccontr)
    assume "done_count data date \<noteq> length (activities data)"
    with done_count_le [of data date]
    have "done_count data date + 1 \<le> length (activities data)" by simp
    then have "(of_nat (done_count data date + 1) :: rat) \<le> of_nat (length (activities data))"
      by (simp only: of_nat_le_iff)
    then have k: "(of_nat (done_count data date) :: rat) \<le> of_nat (length (activities data)) - 1"
      by simp
    define N :: rat where "N = of_nat (length (activities data))"
    have N: "0 < N" "N \<le> 2 ^ 44"
    proof -
      show "0 < N" using n by (simp add: N_def)
      have "(of_nat (length (activities data)) :: rat) \<le> of_nat (2 ^ 44)"
        using small by (simp only: of_nat_le_iff)
      then show "N \<le> 2 ^ 44" by (simp add: N_def)
    qed
    have "day_percentage data date \<le> (N - 1) / N * 100"
      using k N(1) by (simp add: day_percentage_def N_def divide_right_mono)
    also have "\<dots> = 100 - 100 / N" using N(1) by (simp add: field_simps)
    finally have d: "day_percentage data date \<le> 100 - 100 / N" .
    have "100 / 2 ^ 44 \<le> 100 / N"
      by (rule divide_left_mono) (use N in simp_all)
    moreover have "302 * roundoff < 100 / 2 ^ 44" by (simp add: roundoff_def)
    ultimately have "302 * roundoff < 100 / N" by linarith
    with d percentage_error [OF n, of date] c show False by linarith
  qed
qed


text \<open>
  \<open>code_sum\<close> is \<^verbatim>\<open>totalDayPercentage\<close> after the dates \<open>ds\<close>, each addition rounded. The two
  loops, in terms of these quantities.
\<close>

definition code_sum :: "ledger \<Rightarrow> datekey list \<Rightarrow> rat \<Rightarrow> rat" where
  "code_sum data ds t = fold (\<lambda>date t. double (t + code_percentage data date)) ds t"

lemma code_sum_snoc:
  "code_sum data (ds @ [d]) t = double (code_sum data ds t + code_percentage data d)"
  by (simp add: code_sum_def)

lemma date_step_eq:
  "date_step data date (n, c, t) =
     (if has_data data date
      then (n + 1, (if code_percentage data date = 100 then c + 1 else c),
            double (t + code_percentage data date))
      else (n, c, t))"
  by (simp add: date_step_def day_scan_eq Let_def code_percentage_def)

lemma range_scan_fold:
  "range_scan data dateRange (n, c, t) =
     (n + length (filter (has_data data) dateRange),
      c + length (filter (\<lambda>date. has_data data date \<and> code_percentage data date = 100) dateRange),
      code_sum data (filter (has_data data) dateRange) t)"
proof (induction dateRange arbitrary: n c t)
  case Nil
  then show ?case by (simp add: range_scan_def code_sum_def)
next
  case (Cons date dateRange)
  have step: "range_scan data (date # dateRange) (n, c, t) =
      range_scan data dateRange (date_step data date (n, c, t))"
    by (simp add: range_scan_def)
  show ?case
    unfolding step date_step_eq by (simp add: Cons.IH code_sum_def)
qed

text \<open>
  The accumulated error of the rounded sum over \<open>j\<close> dates is at most \<open>j * (101 * j + 404)\<close>
  units of roundoff.
\<close>

lemma sum_percentage_bounds:
  assumes "activities data \<noteq> []"
  shows "0 \<le> sum_list (map (day_percentage data) ds)"
    and "sum_list (map (day_percentage data) ds) \<le> 100 * of_nat (length ds)"
proof -
  show "0 \<le> sum_list (map (day_percentage data) ds)"
    using day_percentage_bounds(1) [OF assms] by (induction ds) simp_all
  show "sum_list (map (day_percentage data) ds) \<le> 100 * of_nat (length ds)"
  proof (induction ds)
    case Nil
    then show ?case by simp
  next
    case (Cons d ds)
    with day_percentage_bounds(2) [OF assms, of d] show ?case by (simp add: algebra_simps)
  qed
qed

lemma sum_error:
  assumes n: "activities data \<noteq> []"
  shows "101 * length ds + 404 \<le> 2 ^ 53 \<Longrightarrow>
         \<bar>code_sum data ds 0 - sum_list (map (day_percentage data) ds)\<bar> \<le>
           of_nat (length ds) * (101 * of_nat (length ds) + 404) * roundoff"
proof (induction ds rule: rev_induct)
  case Nil
  then show ?case by (simp add: code_sum_def)
next
  case (snoc d ds)
  define J :: rat where "J = of_nat (length ds)"
  define t where "t = code_sum data ds 0"
  define S where "S = sum_list (map (day_percentage data) ds)"
  define b where "b = code_percentage data d"
  define q where "q = day_percentage data d"
  define E where "E = J * (101 * J + 404) * roundoff"
  define A where "A = (101 * J + 404) * roundoff"
  define B where "B = (101 * J + 101) * roundoff"
  have J0: "0 \<le> J" by (simp add: J_def)
  from snoc.prems have len: "101 * length ds + 404 \<le> 2 ^ 53" by simp
  then have "(of_nat (101 * length ds + 404) :: rat) \<le> of_nat (2 ^ 53)"
    by (simp only: of_nat_le_iff)
  then have "101 * J + 404 \<le> 2 ^ 53" by (simp add: J_def)
  then have "(101 * J + 404) * roundoff \<le> 2 ^ 53 * roundoff"
    using roundoff_bounds(1) by (simp only: mult_right_mono less_imp_le)
  then have A1: "A \<le> 1" by (simp add: A_def roundoff_def)
  have A0: "0 \<le> A" using J0 roundoff_bounds(1) by (simp add: A_def)
  have B0: "0 \<le> B" using J0 roundoff_bounds(1) by (simp add: B_def)
  have EA: "E = J * A" by (simp add: E_def A_def algebra_simps)
  have "J * A \<le> J * 1" using A1 J0 by (rule mult_left_mono)
  then have EJ: "E \<le> J" by (simp add: EA)
  have ih: "\<bar>t - S\<bar> \<le> E"
    using snoc.IH [OF len] by (simp add: t_def S_def E_def J_def)
  have S: "0 \<le> S" "S \<le> 100 * J"
    using sum_percentage_bounds [OF n, of ds] by (simp_all add: S_def J_def)
  have q: "0 \<le> q" "q \<le> 100"
    using day_percentage_bounds [OF n, of d] by (simp_all add: q_def)
  have bq: "\<bar>b - q\<bar> \<le> 302 * roundoff"
    unfolding b_def q_def by (rule percentage_error [OF n])
  have "\<bar>t + b\<bar> + 1 \<le> 101 * J + 102"
    using ih EJ S q bq roundoff_bounds by linarith
  then have "\<bar>double (t + b) - (t + b)\<bar> \<le> (101 * J + 102) * roundoff"
    by (rule double_roundoff_le)
  then have r: "\<bar>double (t + b) - (t + b)\<bar> \<le> A - 302 * roundoff"
    by (simp add: A_def algebra_simps)
  have goal: "(J + 1) * (101 * (J + 1) + 404) * roundoff = E + A + B"
    by (simp add: E_def A_def B_def algebra_simps)
  have "\<bar>double (t + b) - (S + q)\<bar> \<le> E + A + B"
    using r ih bq B0 by linarith
  then have fin: "\<bar>double (t + b) - (S + q)\<bar> \<le> (J + 1) * (101 * (J + 1) + 404) * roundoff"
    by (simp only: goal)
  have 1: "code_sum data (ds @ [d]) 0 = double (t + b)"
    by (simp add: code_sum_snoc t_def b_def)
  have 2: "sum_list (map (day_percentage data) (ds @ [d])) = S + q"
    by (simp add: S_def q_def)
  have 3: "(of_nat (length (ds @ [d])) :: rat) = J + 1"
    by (simp add: J_def)
  show ?case
    unfolding 1 2 3 by (rule fin)
qed


text \<open>
  The exact mean is a fraction with denominator \<open>N * D\<close>, for \<open>N\<close> activities and \<open>D\<close>
  contributing dates, and the rounded quotient is within \<open>101 * D + 506\<close> units of roundoff
  of it. When \<open>N * D * (101 * D + 506) < 2 ^ 52\<close>, this error is too small to move
  \<^verbatim>\<open>Math.round\<close> away from the integers nearest to the exact mean.
\<close>

lemma sum_count:
  assumes "activities data \<noteq> []"
  shows "sum_list (map (day_percentage data) ds) * of_nat (length (activities data)) =
         of_nat (100 * sum_list (map (done_count data) ds))"
proof (induction ds)
  case Nil
  then show ?case by simp
next
  case (Cons d ds)
  from assms have "day_percentage data d * of_nat (length (activities data)) =
      of_nat (100 * done_count data d)"
    by (simp add: day_percentage_def)
  with Cons show ?case by (simp add: algebra_simps)
qed

lemma Math_round_bounds: "of_int (Math_round y) \<le> y + 1 / 2" "y - 1 / 2 < of_int (Math_round y)"
  unfolding Math_round_def by linarith+

lemma overall_nearest:
  assumes n: "activities data \<noteq> []" and c: "ds \<noteq> []"
    and small: "length (activities data) * length ds * (101 * length ds + 506) < 2 ^ 52"
  shows "\<bar>of_int (Math_round (double (code_sum data ds 0 / of_nat (length ds)))) -
          sum_list (map (day_percentage data) ds) / of_nat (length ds)\<bar> \<le> 1 / 2"
proof -
  define N :: rat where "N = of_nat (length (activities data))"
  define D :: rat where "D = of_nat (length ds)"
  define t where "t = code_sum data ds 0"
  define S where "S = sum_list (map (day_percentage data) ds)"
  define m where "m = S / D"
  define y where "y = double (t / D)"
  define r where "r = Math_round y"
  define K where "K = sum_list (map (done_count data) ds)"
  define A where "A = (101 * D + 404) * roundoff"
  define e where "e = (101 * D + 506) * roundoff"
  define P where "P = N * D"
  define w where "w = \<bar>of_int r - m\<bar>"
  have N1: "1 \<le> N" using n by (simp add: N_def Suc_le_eq)
  have D1: "1 \<le> D" using c by (simp add: D_def Suc_le_eq)
  have P1: "1 \<le> P"
  proof -
    have "1 * 1 \<le> N * D" using N1 D1 by (intro mult_mono) simp_all
    then show ?thesis by (simp add: P_def)
  qed
  have "(of_nat (length (activities data) * length ds * (101 * length ds + 506)) :: rat) <
        of_nat (2 ^ 52)"
    using small by (simp only: of_nat_less_iff)
  then have small': "P * (101 * D + 506) < 2 ^ 52"
    by (simp add: P_def N_def D_def)
  have X: "101 * D + 506 \<le> P * (101 * D + 506)"
  proof -
    have "1 * (101 * D + 506) \<le> P * (101 * D + 506)"
      using P1 D1 by (intro mult_right_mono) simp_all
    then show ?thesis by simp
  qed
  have len: "101 * length ds + 404 \<le> 2 ^ 53"
  proof -
    define M where "M = length (activities data) * length ds * (101 * length ds + 506)"
    have "1 \<le> length (activities data) * length ds"
      using n c by (simp add: Suc_le_eq)
    then have "1 * (101 * length ds + 506) \<le>
        (length (activities data) * length ds) * (101 * length ds + 506)"
      by (rule mult_le_mono1)
    then have "101 * length ds + 506 \<le> M" by (simp only: M_def nat_mult_1)
    moreover have "M < 4503599627370496" using small by (simp add: M_def)
    ultimately show ?thesis by simp
  qed
  have E: "\<bar>t - S\<bar> \<le> D * A"
    using sum_error [OF n len] by (simp add: t_def S_def D_def A_def algebra_simps)
  have A0: "0 \<le> A" using D1 roundoff_bounds(1) by (simp add: A_def)
  have "(101 * D + 404) * roundoff \<le> 2 ^ 52 * roundoff"
    using X small' roundoff_bounds(1) by (intro mult_right_mono) simp_all
  then have A1: "A \<le> 1" by (simp add: A_def roundoff_def)
  have tm: "\<bar>t / D - m\<bar> \<le> A"
  proof -
    have "t / D - m = (t - S) / D" by (simp add: m_def diff_divide_distrib)
    then have "\<bar>t / D - m\<bar> = \<bar>t - S\<bar> / D" using D1 by (simp add: abs_divide)
    also have "\<dots> \<le> D * A / D" using E D1 by (intro divide_right_mono) simp_all
    also have "\<dots> = A" using D1 by simp
    finally show ?thesis .
  qed
  have S: "0 \<le> S" "S \<le> 100 * D"
    using sum_percentage_bounds [OF n, of ds] by (simp_all add: S_def D_def)
  have m: "0 \<le> m" "m \<le> 100"
  proof -
    show "0 \<le> m" using S(1) D1 by (simp add: m_def)
    have "S / D \<le> 100 * D / D" using S(2) D1 by (intro divide_right_mono) simp_all
    then show "m \<le> 100" using D1 by (simp add: m_def)
  qed
  have "\<bar>t / D\<bar> + 1 \<le> 102" using tm m A1 by linarith
  then have "\<bar>y - t / D\<bar> \<le> 102 * roundoff"
    unfolding y_def by (rule double_roundoff_le)
  moreover have "e = A + 102 * roundoff" by (simp add: e_def A_def algebra_simps)
  ultimately have ym: "\<bar>y - m\<bar> \<le> e" using tm by linarith
  have e0: "0 \<le> e" using D1 roundoff_bounds(1) by (simp add: e_def)
  have w: "w \<le> 1 / 2 + e" "0 \<le> w"
    using Math_round_bounds [of y] ym by (simp_all add: w_def r_def)
  have Pe: "2 * P * e < 1"
  proof -
    have "P * (101 * D + 506) * roundoff < 2 ^ 52 * roundoff"
      using small' roundoff_bounds(1) by (simp only: mult_strict_right_mono)
    then show ?thesis by (simp add: e_def roundoff_def algebra_simps)
  qed
  define z :: int where
    "z = 2 * (r * int (length (activities data)) * int (length ds)) - 2 * int (100 * K)"
  have mP: "m * P = of_nat (100 * K)"
  proof -
    have "m * P = S * N" using D1 by (simp add: m_def P_def)
    then show ?thesis using sum_count [OF n, of ds] by (simp add: S_def N_def K_def)
  qed
  have "(of_int z :: rat) = 2 * (of_int r * P) - 2 * (m * P)"
    by (simp add: z_def P_def N_def D_def mP [unfolded P_def N_def D_def])
  then have "(of_int z :: rat) = 2 * P * (of_int r - m)" by (simp add: algebra_simps)
  then have zw: "\<bar>of_int z :: rat\<bar> = 2 * P * w"
    using P1 by (simp add: abs_mult w_def)
  have "2 * P * w \<le> 2 * P * (1 / 2 + e)"
    using w(1) P1 by (intro mult_left_mono) simp_all
  also have "\<dots> = P + 2 * P * e" by (simp add: algebra_simps)
  also have "\<dots> < P + 1" using Pe by simp
  finally have "\<bar>of_int z :: rat\<bar> < P + 1" by (simp add: zw)
  then have "(of_int \<bar>z\<bar> :: rat) < of_int (int (length (activities data) * length ds) + 1)"
    by (simp add: P_def N_def D_def)
  then have "\<bar>z\<bar> < int (length (activities data) * length ds) + 1"
    by (simp only: of_int_less_iff)
  then have "\<bar>z\<bar> \<le> int (length (activities data) * length ds)" by simp
  then have "(of_int \<bar>z\<bar> :: rat) \<le> of_int (int (length (activities data) * length ds))"
    by (simp only: of_int_le_iff)
  moreover have "(of_int (int (length (activities data) * length ds)) :: rat) = P"
    by (simp add: P_def N_def D_def)
  ultimately have "\<bar>of_int z :: rat\<bar> \<le> P" by simp
  then have "2 * P * w \<le> P" unfolding zw .
  then have "P * (2 * w) \<le> P * 1" by (simp add: algebra_simps)
  then have "2 * w \<le> 1" using P1 by simp
  then have "w \<le> 1 / 2" by simp
  then show ?thesis
    by (simp add: w_def r_def y_def t_def m_def S_def D_def)
qed


lemma length_filter_all: "length (filter P xs) = length xs \<longleftrightarrow> (\<forall>x \<in> set xs. P x)"
proof (induction xs)
  case Nil
  then show ?case by simp
next
  case (Cons x xs)
  have "length (filter P xs) \<noteq> Suc (length xs)"
    by (metis length_filter_le Suc_n_not_le_n)
  with Cons show ?case by auto
qed

lemma all_done_count: "all_done data date \<longleftrightarrow> done_count data date = length (activities data)"
  by (simp add: done_count_def all_done_def length_filter_all)

lemma calculateSuccessPercentage_eq:
  "fst (calculateSuccessPercentage now dateRange st) =
     (if activities (fst (getData now st)) = [] \<or> dateRange = []
      then \<lparr>completedDays = 0, overall = 0\<rparr>
      else \<lparr>completedDays =
               length (filter (\<lambda>date. has_data (fst (getData now st)) date \<and>
                   code_percentage (fst (getData now st)) date = 100) dateRange),
             overall =
               (if filter (has_data (fst (getData now st))) dateRange = [] then 0
                else Math_round (double
                  (code_sum (fst (getData now st))
                      (filter (has_data (fst (getData now st))) dateRange) 0 /
                   of_nat (length (filter (has_data (fst (getData now st))) dateRange)))))\<rparr>)"
proof -
  obtain data st1 where g: "getData now st = (data, st1)" by force
  show ?thesis
    by (simp add: calculateSuccessPercentage_def g Let_def range_scan_fold)
qed

text \<open>
  What the code returns for a ledger in which no activity is named like a member of
  \<^verbatim>\<open>Object.prototype\<close>, over a range that is not astronomically long (the script has at
  most 50 activities and ranges of 7 and of at most 31 dates): \<open>completedDays\<close> is the
  number of dates of the range that have a key of some activity and mark every activity
  as true; \<open>overall\<close> is an integer nearest to the mean of the day percentages over the
  contributing dates; and without a contributing date the result is 0 and 0.
\<close>

lemma success_plain_names:
  assumes plain: "set (activities (fst (getData now st))) \<inter> set Object_prototype = {}"
    and small: "length (activities (fst (getData now st))) * length dateRange *
                  (101 * length dateRange + 506) < 2 ^ 52"
  shows "completedDays (fst (calculateSuccessPercentage now dateRange st)) =
           length (filter (\<lambda>date. has_key (fst (getData now st)) date \<and>
                                   all_done (fst (getData now st)) date) dateRange)"
    and "contributing (fst (getData now st)) dateRange \<noteq> [] \<Longrightarrow>
           \<bar>of_int (overall (fst (calculateSuccessPercentage now dateRange st))) -
             mean_percentage (fst (getData now st)) dateRange\<bar> \<le> 1 / 2"
    and "dateRange = [] \<or> activities (fst (getData now st)) = [] \<or>
         contributing (fst (getData now st)) dateRange = [] \<Longrightarrow>
           fst (calculateSuccessPercentage now dateRange st) = \<lparr>completedDays = 0, overall = 0\<rparr>"
proof -
  define data where "data = fst (getData now st)"
  have hd: "has_data data = has_key data"
    using plain by (simp add: fun_eq_iff has_data_plain data_def)
  then have cs: "filter (has_data data) dateRange = contributing data dateRange"
    by (simp add: contributing_def)
  have empty: "activities data = [] \<Longrightarrow> contributing data dateRange = []"
    by (simp add: contributing_def has_key_def)
  have pct: "code_percentage data date = 100 \<longleftrightarrow> all_done data date"
    if "activities data \<noteq> []" "dateRange \<noteq> []" for date
  proof -
    define N where "N = length (activities data)"
    define L where "L = length dateRange"
    define M where "M = L * (101 * L + 506)"
    have L: "1 \<le> L" using that(2) by (simp add: L_def Suc_le_eq)
    then have "1 * 607 \<le> L * (101 * L + 506)" by (intro mult_le_mono) simp_all
    then have "607 \<le> M" by (simp add: M_def)
    then have "N * 607 \<le> N * M" by (rule mult_le_mono2)
    moreover have "N * M < 4503599627370496"
      using small by (simp add: N_def L_def M_def data_def mult.assoc)
    ultimately have "N * 607 < 4503599627370496" by (rule le_less_trans)
    then have "N < 2 ^ 44" by simp
    then show ?thesis
      using percentage_100 [OF that(1), of date] by (simp add: N_def all_done_count)
  qed
  show "completedDays (fst (calculateSuccessPercentage now dateRange st)) =
           length (filter (\<lambda>date. has_key (fst (getData now st)) date \<and>
                                   all_done (fst (getData now st)) date) dateRange)"
  proof (cases "activities data = [] \<or> dateRange = []")
    case True
    then have "filter (\<lambda>date. has_key data date \<and> all_done data date) dateRange = []"
      by (auto simp: has_key_def)
    with True show ?thesis
      by (simp add: calculateSuccessPercentage_eq data_def [symmetric])
  next
    case False
    then have "(\<lambda>date. has_data data date \<and> code_percentage data date = 100) =
               (\<lambda>date. has_key data date \<and> all_done data date)"
      using pct by (simp add: hd)
    with False show ?thesis
      by (simp add: calculateSuccessPercentage_eq data_def [symmetric])
  qed
  show "\<bar>of_int (overall (fst (calculateSuccessPercentage now dateRange st))) -
          mean_percentage (fst (getData now st)) dateRange\<bar> \<le> 1 / 2"
    if c: "contributing (fst (getData now st)) dateRange \<noteq> []"
  proof -
    from c have c': "contributing data dateRange \<noteq> []" by (simp add: data_def)
    with empty have n: "activities data \<noteq> []" by blast
    from c' have r: "dateRange \<noteq> []" by (auto simp: contributing_def)
    define N where "N = length (activities data)"
    define L where "L = length dateRange"
    define D where "D = length (contributing data dateRange)"
    have "D \<le> L" by (simp add: D_def L_def contributing_def)
    then have "D * (101 * D + 506) \<le> L * (101 * L + 506)" by (intro mult_le_mono) simp_all
    then have "N * (D * (101 * D + 506)) \<le> N * (L * (101 * L + 506))"
      by (rule mult_le_mono2)
    moreover have "N * (L * (101 * L + 506)) < 2 ^ 52"
      using small by (simp add: N_def L_def data_def mult.assoc)
    ultimately have "N * (D * (101 * D + 506)) < 2 ^ 52" by (rule le_less_trans)
    then have "N * D * (101 * D + 506) < 2 ^ 52" by (simp only: mult.assoc)
    then have "\<bar>of_int (Math_round (double (code_sum data (contributing data dateRange) 0 /
                  of_nat (length (contributing data dateRange))))) -
               sum_list (map (day_percentage data) (contributing data dateRange)) /
                  of_nat (length (contributing data dateRange))\<bar> \<le> 1 / 2"
      unfolding N_def D_def by (rule overall_nearest [OF n c'])
    with n r c' show ?thesis
      by (simp add: calculateSuccessPercentage_eq data_def [symmetric] cs mean_percentage_def)
  qed
  show "fst (calculateSuccessPercentage now dateRange st) = \<lparr>completedDays = 0, overall = 0\<rparr>"
    if "dateRange = [] \<or> activities (fst (getData now st)) = [] \<or>
        contributing (fst (getData now st)) dateRange = []"
  proof -
    from that have "dateRange = [] \<or> activities data = [] \<or>
        contributing data dateRange = []"
      unfolding data_def .
    then have "dateRange = [] \<or> activities data = [] \<or>
        (\<forall>date \<in> set dateRange. \<not> has_data data date)"
      by (auto simp: hd contributing_def filter_empty_conv)
    then show ?thesis unfolding data_def by (rule success_nothing)
  qed
qed

text \<open>
  An example with three activities and eight dates: on three dates one activity of three
  is done, on five dates none. The exact mean is 12.5; the code computes
  \<^verbatim>\<open>33.33333333333333\<close> three times, the sum \<^verbatim>\<open>99.99999999999999\<close> and the quotient
  \<^verbatim>\<open>12.499999999999998\<close>, and returns 12.
\<close>

definition ledger_thirds :: ledger where
  "ledger_thirds =
     (fst (initializeData 0))
       \<lparr>activities := [''Gym'', ''Read'', ''Walk''],
        dailyData := [1 \<mapsto> [''Gym'' \<mapsto> True], 2 \<mapsto> [''Gym'' \<mapsto> True], 3 \<mapsto> [''Gym'' \<mapsto> True],
                      4 \<mapsto> [''Gym'' \<mapsto> False], 5 \<mapsto> [''Gym'' \<mapsto> False],
                      6 \<mapsto> [''Gym'' \<mapsto> False], 7 \<mapsto> [''Gym'' \<mapsto> False],
                      8 \<mapsto> [''Gym'' \<mapsto> False]]\<rparr>"

lemma thirds_rounded_down:
  "mean_percentage ledger_thirds [1, 2, 3, 4, 5, 6, 7, 8] = 25 / 2 \<and>
   code_sum ledger_thirds [1, 2, 3] 0 < 100 \<and>
   fst (calculateSuccessPercentage 0 [1, 2, 3, 4, 5, 6, 7, 8] (Some ledger_thirds)) =
     \<lparr>completedDays = 0, overall = 12\<rparr>"
  by code_simp

text \<open>
  The store after two activities are added on 2024-01-01, \<^verbatim>\<open>Gym\<close> and \<^verbatim>\<open>constructor\<close>,
  and \<^verbatim>\<open>Gym\<close> is ticked that day.
\<close>

definition store_gym_constructor :: storage where
  "store_gym_constructor =
     snd (toggleActivity unlimited (Date_of_key (DateKey 2024 1 1)) ''Gym''
       (snd (addActivity unlimited (Date_of_key (DateKey 2024 1 1)) ''constructor''
         (snd (addActivity unlimited (Date_of_key (DateKey 2024 1 1)) ''Gym'' None)))))"

text \<open>
  C3 with an activity named like a member of \<^verbatim>\<open>Object.prototype\<close>. The activities are
  \<^verbatim>\<open>Gym\<close> and \<^verbatim>\<open>constructor\<close>; the record of 2024-01-01 holds the one key \<^verbatim>\<open>Gym\<close>, with
  \<open>True\<close>, and 2024-01-02 has no record. Over these two dates only the first has an
  activity key, its percentage is 50, and the mean over the contributing dates is 50.
  The code reads \<^verbatim>\<open>dayData["constructor"]\<close> through the prototype, finds the function
  \<^verbatim>\<open>Object\<close> in both records, and counts both dates: it returns \<open>overall = 25\<close>.
\<close>

theorem C3_inherited_name_contributes:
  "map_option activities store_gym_constructor = Some [''Gym'', ''constructor''] \<and>
   day_flag (fst (getData 0 store_gym_constructor)) (DateKey 2024 1 1) ''Gym'' = Some True \<and>
   day_flag (fst (getData 0 store_gym_constructor)) (DateKey 2024 1 1) ''constructor'' = None \<and>
   dailyData (fst (getData 0 store_gym_constructor)) (DateKey 2024 1 2) = None \<and>
   contributing (fst (getData 0 store_gym_constructor)) [DateKey 2024 1 1, DateKey 2024 1 2] =
     [DateKey 2024 1 1] \<and>
   mean_percentage (fst (getData 0 store_gym_constructor)) [DateKey 2024 1 1, DateKey 2024 1 2] =
     50 \<and>
   fst (calculateSuccessPercentage 0 [DateKey 2024 1 1, DateKey 2024 1 2] store_gym_constructor) =
     \<lparr>completedDays = 0, overall = 25\<rparr>"
  by code_simp

subsection \<open>The date keys of a running clock\<close>

text \<open>
  All keys go through \<^verbatim>\<open>toISOString\<close>, so they are UTC days. In a zone without daylight
  saving the week range is the seven UTC days that end at today's key.
\<close>

lemma getWeekDates_utc:
  assumes "no_dst tz"
  shows "getWeekDates tz now = map (\<lambda>i. getTodayDate now - i) (rev [0..6])"
proof -
  have "toISODate (setDate tz now (getDate tz now - i)) = getTodayDate now - i" for i
    using setDate_getDate [OF assms, of now "- i"] toISODate_shift [of now "- i"]
    by (simp add: getTodayDate_def)
  then show ?thesis by (simp add: getWeekDates_def)
qed

text \<open>
  Each key of the month range is read off the local midnight of a day of the local month.
  In a zone ahead of UTC that instant lies in the previous UTC day, so the key names the
  day before; in a zone at or behind UTC the key names the day itself.
\<close>

lemma toISODate_Date_of_fields:
  assumes "no_dst tz"
  shows "toISODate (Date_of_fields tz year month day) =
           MakeDay (if 0 \<le> year \<and> year \<le> 99 then 1900 + year else year) month day +
           (- (std_offset tz * msPerMinute)) div msPerDay"
proof -
  have "(k * msPerDay + x) div msPerDay = k + x div msPerDay" for k x :: int
    using msPerDay_pos by simp
  from this [of _ "- (std_offset tz * msPerMinute)"] show ?thesis
    by (simp add: Date_of_fields_def Let_def no_dst_utc [OF assms] MakeDate_def toISODate_def
        Day_def)
qed

lemma month_key_ahead_of_utc:
  assumes "no_dst tz" and "0 < std_offset tz" and "std_offset tz \<le> 24 * 60"
  shows "toISODate (Date_of_fields tz year month day) =
           MakeDay (if 0 \<le> year \<and> year \<le> 99 then 1900 + year else year) month day - 1"
proof -
  have "(- (std_offset tz * msPerMinute)) div msPerDay = - 1"
    using assms(2,3)
    by (intro int_div_pos_eq [where r = "msPerDay - std_offset tz * msPerMinute"])
      (simp_all add: msPerMinute_def msPerDay_def)
  then show ?thesis
    by (simp add: toISODate_Date_of_fields [OF assms(1)])
qed


lemma month_key_behind_utc:
  assumes "no_dst tz" and "std_offset tz \<le> 0" and "- 24 * 60 < std_offset tz"
  shows "toISODate (Date_of_fields tz year month day) =
           MakeDay (if 0 \<le> year \<and> year \<le> 99 then 1900 + year else year) month day"
proof -
  have "(- (std_offset tz * msPerMinute)) div msPerDay = 0"
    using assms(2,3)
    by (intro int_div_pos_eq [where r = "- (std_offset tz * msPerMinute)"])
      (simp_all add: msPerMinute_def msPerDay_def mult_le_0_iff)
  then show ?thesis
    by (simp add: toISODate_Date_of_fields [OF assms(1)])
qed

text \<open>
  C8 at a zone ahead of UTC. The zone is UTC+05:30 and the clock reads
  2024-01-31T20:00:00Z, which is 01:30 on 1 February 2024 local time. Today's key is
  2024-01-31, the week range ends there, and the month range runs from 2024-01-31 to
  2024-02-28: it holds a day of January and lacks 29 February.
\<close>

theorem C8_keys_ahead_of_utc:
  "getFullYear (fixed_zone 330) 1706731200000 = 2024 \<and>
   getMonth (fixed_zone 330) 1706731200000 = 1 \<and>
   getDate (fixed_zone 330) 1706731200000 = 1 \<and>
   DateKey_text (getTodayDate 1706731200000) = ''2024-01-31'' \<and>
   map DateKey_text (getWeekDates (fixed_zone 330) 1706731200000) =
     [''2024-01-25'', ''2024-01-26'', ''2024-01-27'', ''2024-01-28'', ''2024-01-29'',
      ''2024-01-30'', ''2024-01-31''] \<and>
   map DateKey_text (getMonthDates (fixed_zone 330) 1706731200000) =
     [''2024-01-31'', ''2024-02-01'', ''2024-02-02'', ''2024-02-03'', ''2024-02-04'',
      ''2024-02-05'', ''2024-02-06'', ''2024-02-07'', ''2024-02-08'', ''2024-02-09'',
      ''2024-02-10'', ''2024-02-11'', ''2024-02-12'', ''2024-02-13'', ''2024-02-14'',
      ''2024-02-15'', ''2024-02-16'', ''2024-02-17'', ''2024-02-18'', ''2024-02-19'',
      ''2024-02-20'', ''2024-02-21'', ''2024-02-22'', ''2024-02-23'', ''2024-02-24'',
      ''2024-02-25'', ''2024-02-26'', ''2024-02-27'', ''2024-02-28'']"
  by code_simp

end
